theory Spec2Isabelle
  imports Main "HOL-Library.Word" "HOL-Library.Log_Nat"
begin

section \<open>Pan/tilt tracker firmware: the command decoder and motion filter\<close>

text \<open>
  The sketch \<^verbatim>\<open>cortex_srt_arduino/src/main.cpp\<close> keeps two global angles
  (\<^verbatim>\<open>currentPan\<close>, \<^verbatim>\<open>currentTilt\<close>) and, for every line read from the serial
  port, runs \<^verbatim>\<open>parseCommand\<close>: it splits the line at its first two colons, converts
  the three fields, moves each angle towards a clamped target and writes two servo pulse
  widths and the laser pin.

  The sketch is written against the Arduino core: \<^verbatim>\<open>String\<close>, \<^verbatim>\<open>constrain\<close>,
  \<^verbatim>\<open>map\<close>, and through \<^verbatim>\<open>String::toFloat\<close> and \<^verbatim>\<open>String::toInt\<close> the C library's
  \<^verbatim>\<open>atof\<close> and \<^verbatim>\<open>atol\<close>. These are not part of the repository; they are embedded
  below as the core defines them, each with the C it stands for. The machine types are
  those of the 8-bit AVR boards (Uno, Nano, Mega): \<^verbatim>\<open>int\<close> is 16 bits, \<^verbatim>\<open>long\<close> is
  32 bits, \<^verbatim>\<open>float\<close> is IEEE 754 binary32 and every operation on it rounds to nearest,
  ties to even.
\<close>

subsection \<open>The type \<^verbatim>\<open>float\<close>\<close>

text \<open>
  A \<^verbatim>\<open>float\<close> is a finite binary32 number, an infinity or a NaN. Finite values are
  carried as the rational they denote; the two zeros are identified (they compare equal,
  and nothing in the sketch looks at the sign of a zero).
\<close>

datatype float32 = Finite rat | PInf | NInf | NaN

text \<open>Rounding a quotient to the nearest integer, a tie going to the even neighbour.\<close>

definition round_even :: "rat \<Rightarrow> int" where
  "round_even x =
     (let n = \<lfloor>x\<rfloor>; r = x - of_int n
      in if r < 1 / 2 then n else if 1 / 2 < r then n + 1
         else if even n then n else n + 1)"

text \<open>
  The spacing of binary32 numbers around \<open>x\<close>: \<open>2\<^sup>-\<^sup>1\<^sup>4\<^sup>9\<close> for subnormals and the first
  normal binade, and otherwise the power of two that leaves \<open>\<bar>x\<bar>\<close> a 24-bit significand.
\<close>

definition quantum :: "rat \<Rightarrow> rat" where
  "quantum x = 2 ^ nat (bitlen \<lfloor>\<bar>x\<bar> * 2 ^ 149\<rfloor> - 24) / 2 ^ 149"

definition rnd :: "rat \<Rightarrow> rat" where
  "rnd x = of_int (round_even (x / quantum x)) * quantum x"

text \<open>Rounding an exact result to a \<^verbatim>\<open>float\<close>; beyond the largest finite value it overflows.\<close>

definition fl32 :: "rat \<Rightarrow> float32" where
  "fl32 x =
     (let r = rnd x
      in if 2 ^ 128 \<le> r then PInf else if r \<le> - (2 ^ 128) then NInf else Finite r)"

fun fneg :: "float32 \<Rightarrow> float32" where
  "fneg (Finite a) = Finite (- a)"
| "fneg PInf = NInf"
| "fneg NInf = PInf"
| "fneg NaN = NaN"

fun fadd :: "float32 \<Rightarrow> float32 \<Rightarrow> float32" where
  "fadd (Finite a) (Finite b) = fl32 (a + b)"
| "fadd NaN y = NaN"
| "fadd x NaN = NaN"
| "fadd PInf NInf = NaN"
| "fadd NInf PInf = NaN"
| "fadd PInf y = PInf"
| "fadd NInf y = NInf"
| "fadd x PInf = PInf"
| "fadd x NInf = NInf"

definition fsub :: "float32 \<Rightarrow> float32 \<Rightarrow> float32" where
  "fsub x y = fadd x (fneg y)"

fun fmul :: "float32 \<Rightarrow> float32 \<Rightarrow> float32" where
  "fmul (Finite a) (Finite b) = fl32 (a * b)"
| "fmul NaN y = NaN"
| "fmul x NaN = NaN"
| "fmul PInf (Finite b) = (if b = 0 then NaN else if 0 < b then PInf else NInf)"
| "fmul NInf (Finite b) = (if b = 0 then NaN else if 0 < b then NInf else PInf)"
| "fmul (Finite a) PInf = (if a = 0 then NaN else if 0 < a then PInf else NInf)"
| "fmul (Finite a) NInf = (if a = 0 then NaN else if 0 < a then NInf else PInf)"
| "fmul PInf PInf = PInf"
| "fmul NInf NInf = PInf"
| "fmul PInf NInf = NInf"
| "fmul NInf PInf = NInf"

text \<open>The comparison \<^verbatim>\<open><\<close>: false as soon as an operand is a NaN.\<close>

fun flt :: "float32 \<Rightarrow> float32 \<Rightarrow> bool" where
  "flt (Finite a) (Finite b) = (a < b)"
| "flt NaN y = False"
| "flt x NaN = False"
| "flt x NInf = False"
| "flt PInf y = False"
| "flt NInf y = True"
| "flt x PInf = True"

definition fgt :: "float32 \<Rightarrow> float32 \<Rightarrow> bool" where
  "fgt x y = flt y x"

text \<open>Conversion of an \<^verbatim>\<open>int\<close> or \<^verbatim>\<open>long\<close> to \<^verbatim>\<open>float\<close>.\<close>

definition float_of_int :: "int \<Rightarrow> float32" where
  "float_of_int i = fl32 (of_int i)"

text \<open>
  Conversion of a \<^verbatim>\<open>float\<close> to \<^verbatim>\<open>long\<close> drops the fraction. C++ leaves it undefined
  for a NaN, an infinity or a value outside the range of \<^verbatim>\<open>long\<close>: that is \<open>None\<close>.
\<close>

definition truncate_rat :: "rat \<Rightarrow> int" where
  "truncate_rat r = (if 0 \<le> r then \<lfloor>r\<rfloor> else - \<lfloor>- r\<rfloor>)"

definition long_ok :: "int \<Rightarrow> bool" where
  "long_ok v = (- (2 ^ 31) \<le> v \<and> v < 2 ^ 31)"

fun float_to_long :: "float32 \<Rightarrow> int option" where
  "float_to_long (Finite r) = (if long_ok (truncate_rat r) then Some (truncate_rat r) else None)"
| "float_to_long x = None"

subsection \<open>The Arduino core: \<^verbatim>\<open>constrain\<close> and \<^verbatim>\<open>map\<close>\<close>

text \<open>
  \<^verbatim>\<open>#define constrain(amt,low,high) ((amt)<(low)?(low):((amt)>(high)?(high):(amt)))\<close>,
  used with a \<^verbatim>\<open>float\<close> amount and \<^verbatim>\<open>int\<close> bounds, which the comparisons and the
  conditional convert to \<^verbatim>\<open>float\<close>.
\<close>

definition constrain :: "float32 \<Rightarrow> int \<Rightarrow> int \<Rightarrow> float32" where
  "constrain amt low high =
     (if flt amt (float_of_int low) then float_of_int low
      else if fgt amt (float_of_int high) then float_of_int high
      else amt)"

text \<open>C's integer division, which truncates towards zero.\<close>

definition c_div :: "int \<Rightarrow> int \<Rightarrow> int" where
  "c_div a b = sgn a * sgn b * (\<bar>a\<bar> div \<bar>b\<bar>)"

text \<open>
  \<^verbatim>\<open>long map(long x, long in_min, long in_max, long out_min, long out_max)
  { return (x - in_min) * (out_max - out_min) / (in_max - in_min) + out_min; }\<close>
  The arithmetic is on \<^verbatim>\<open>long\<close>; a signed overflow or a division by zero is undefined
  in C++ and gives \<open>None\<close>.
\<close>

definition map_long :: "int \<Rightarrow> int \<Rightarrow> int \<Rightarrow> int \<Rightarrow> int \<Rightarrow> int option" where
  "map_long x in_min in_max out_min out_max =
     (let a = x - in_min; b = out_max - out_min; c = in_max - in_min
      in if long_ok a \<and> long_ok b \<and> long_ok c \<and> c \<noteq> 0 \<and> long_ok (a * b) then
           (let q = c_div (a * b) c
            in if long_ok q \<and> long_ok (q + out_min) then Some (q + out_min) else None)
         else None)"

text \<open>The cast \<^verbatim>\<open>(int)\<close> of a \<^verbatim>\<open>long\<close> keeps the low 16 bits, read as two's complement.\<close>

definition int_of_long :: "int \<Rightarrow> int" where
  "int_of_long v = sint (word_of_int v :: 16 word)"

subsection \<open>The Arduino core: \<^verbatim>\<open>String\<close>\<close>

text \<open>
  A \<^verbatim>\<open>String\<close> is a byte buffer with its length. The searches and copies of the class
  go through the C string functions, which stop at the first NUL byte of the buffer.
\<close>

definition cstr :: "string \<Rightarrow> string" where
  "cstr s = takeWhile (\<lambda>c. c \<noteq> CHR 0x00) s"

text \<open>\<^verbatim>\<open>strchr\<close>: the offset of the first occurrence of \<open>ch\<close> in the C string.\<close>

fun strchr :: "string \<Rightarrow> char \<Rightarrow> nat option" where
  "strchr [] ch = (if ch = CHR 0x00 then Some 0 else None)"
| "strchr (c # cs) ch =
     (if c = ch then Some 0
      else if c = CHR 0x00 then None
      else map_option Suc (strchr cs ch))"

text \<open>
  \<^verbatim>\<open>int String::indexOf(char ch, unsigned int fromIndex) const {
    if (fromIndex >= len) return -1;
    const char* temp = strchr(buffer + fromIndex, ch);
    if (temp == NULL) return -1;
    return temp - buffer; }\<close>
\<close>

definition indexOf :: "string \<Rightarrow> char \<Rightarrow> nat \<Rightarrow> int" where
  "indexOf s ch fromIndex =
     (if length s \<le> fromIndex then - 1
      else case strchr (drop fromIndex s) ch of
             None \<Rightarrow> - 1
           | Some k \<Rightarrow> int (fromIndex + k))"

text \<open>
  \<^verbatim>\<open>String String::substring(unsigned int left, unsigned int right) const {
    if (left > right) { unsigned int temp = right; right = left; left = temp; }
    String out;
    if (left >= len) return out;
    if (right > len) right = len;
    char temp = buffer[right]; buffer[right] = '\0';
    out = buffer + left;
    buffer[right] = temp;
    return out; }\<close>
  and \<^verbatim>\<open>substring(beginIndex)\<close> is \<^verbatim>\<open>substring(beginIndex, len)\<close>.
\<close>

definition substring :: "string \<Rightarrow> nat \<Rightarrow> nat \<Rightarrow> string" where
  "substring s left right =
     (let l = min left right; r = max left right
      in if length s \<le> l then []
         else cstr (take (min r (length s) - l) (drop l s)))"

definition substring_from :: "string \<Rightarrow> nat \<Rightarrow> string" where
  "substring_from s beginIndex = substring s beginIndex (length s)"

subsection \<open>The C library: \<^verbatim>\<open>atof\<close> and \<^verbatim>\<open>atol\<close>\<close>

definition isspace :: "char \<Rightarrow> bool" where
  "isspace c = (c = CHR '' '' \<or> (9 \<le> (of_char c :: nat) \<and> (of_char c :: nat) \<le> 13))"

definition isdigit :: "char \<Rightarrow> bool" where
  "isdigit c = (48 \<le> (of_char c :: nat) \<and> (of_char c :: nat) \<le> 57)"

definition digit_val :: "char \<Rightarrow> nat" where
  "digit_val c = of_char c - 48"

definition tolower :: "char \<Rightarrow> char" where
  "tolower c =
     (if 65 \<le> (of_char c :: nat) \<and> (of_char c :: nat) \<le> 90 then char_of (of_char c + 32 :: nat)
      else c)"

text \<open>\<^verbatim>\<open>strncasecmp(s, word, strlen(word)) == 0\<close> for a lower-case \<open>word\<close>.\<close>

definition starts_with_ci :: "string \<Rightarrow> string \<Rightarrow> bool" where
  "starts_with_ci word s = (map tolower (take (length word) s) = word)"

definition digits_val :: "string \<Rightarrow> nat" where
  "digits_val ds = foldl (\<lambda>a c. 10 * a + digit_val c) 0 ds"

text \<open>An optional sign: whether it is a minus, and the text after it.\<close>

fun take_sign :: "string \<Rightarrow> bool \<times> string" where
  "take_sign [] = (False, [])"
| "take_sign (c # cs) =
     (if c = CHR ''-'' then (True, cs)
      else if c = CHR ''+'' then (False, cs)
      else (False, c # cs))"

text \<open>
  The exponent of a decimal number: \<^verbatim>\<open>e\<close> or \<^verbatim>\<open>E\<close>, an optional sign and at least one
  digit; anything else is no exponent.
\<close>

definition exponent_part :: "string \<Rightarrow> int" where
  "exponent_part s =
     (case s of
        [] \<Rightarrow> 0
      | c # cs \<Rightarrow>
          if c = CHR ''e'' \<or> c = CHR ''E'' then
            (let (neg, ds) = take_sign cs; e = int (digits_val (takeWhile isdigit ds))
             in if neg then - e else e)
          else 0)"

definition pow10 :: "int \<Rightarrow> rat" where
  "pow10 k = (if 0 \<le> k then 10 ^ nat k else 1 / 10 ^ nat (- k))"

text \<open>
  \<^verbatim>\<open>strtod\<close>, which \<^verbatim>\<open>atof\<close> calls: white space, an optional sign, then \<^verbatim>\<open>inf\<close>,
  \<^verbatim>\<open>infinity\<close> or \<^verbatim>\<open>nan\<close> in any case (C99 7.20.1.3; avr-libc compares the first
  three characters with \<^verbatim>\<open>strncasecmp\<close>), or decimal digits with an optional point and
  an optional exponent. Text that starts with none of these converts nothing and the
  result is zero. The decimal value is taken as rounded to the nearest \<^verbatim>\<open>float\<close>.
  avr-libc instead scales an integer mantissa by powers of ten held as \<^verbatim>\<open>float\<close> and
  can be one unit in the last place off (for \<^verbatim>\<open>1.3\<close>, say); the texts converted below
  (\<^verbatim>\<open>0\<close>, \<^verbatim>\<open>1\<close>, \<^verbatim>\<open>2\<close>, \<^verbatim>\<open>7\<close>, \<^verbatim>\<open>8\<close>, \<^verbatim>\<open>10\<close>, \<^verbatim>\<open>20\<close>, \<^verbatim>\<open>2.0\<close>, \<^verbatim>\<open>2.5\<close>,
  \<^verbatim>\<open>-0.00001\<close>) give the same \<^verbatim>\<open>float\<close> either way, and no statement below depends on
  the last place of any other conversion.
\<close>

definition strtod :: "string \<Rightarrow> float32" where
  "strtod s =
     (let (neg, s2) = take_sign (dropWhile isspace s)
      in if starts_with_ci ''inf'' s2 then (if neg then NInf else PInf)
         else if starts_with_ci ''nan'' s2 then NaN
         else
           let ip = takeWhile isdigit s2;
               r1 = dropWhile isdigit s2;
               has_dot = (case r1 of [] \<Rightarrow> False | c # cs \<Rightarrow> c = CHR ''.'');
               fp = (if has_dot then takeWhile isdigit (tl r1) else []);
               r2 = (if has_dot then dropWhile isdigit (tl r1) else r1)
           in if ip = [] \<and> fp = [] then Finite 0
              else
                let m = of_nat (digits_val (ip @ fp)) * pow10 (exponent_part r2 - int (length fp))
                in fl32 (if neg then - m else m))"

text \<open>\<^verbatim>\<open>float String::toFloat() const { if (buffer) return float(atof(buffer)); return 0; }\<close>\<close>

definition toFloat :: "string \<Rightarrow> float32" where
  "toFloat s = strtod s"

text \<open>
  \<^verbatim>\<open>atol\<close>: white space, an optional sign, decimal digits. The digits are accumulated
  in a \<^verbatim>\<open>long\<close> without an overflow check, so the value wraps at 32 bits.
\<close>

definition atol :: "string \<Rightarrow> 32 word" where
  "atol s =
     (let (neg, s2) = take_sign (dropWhile isspace s);
          v = foldl (\<lambda>a c. 10 * a + of_nat (digit_val c)) 0 (takeWhile isdigit s2)
      in if neg then - v else v)"

text \<open>\<^verbatim>\<open>long String::toInt() const { if (buffer) return atol(buffer); return 0; }\<close>\<close>

definition toInt :: "string \<Rightarrow> 32 word" where
  "toInt s = atol s"

subsection \<open>The sketch\<close>

text \<open>
  The globals of \<^verbatim>\<open>main.cpp\<close> that \<^verbatim>\<open>parseCommand\<close> reads and writes. Whatever
  else the program keeps between two lines is the \<open>more\<close> part of the record.
\<close>

record axis_state =
  currentPan :: float32
  currentTilt :: float32

definition initial_state :: axis_state where
  "initial_state = \<lparr>currentPan = float_of_int 90, currentTilt = float_of_int 90\<rparr>"

definition LASER_PIN :: nat where "LASER_PIN = 13"
definition PAN_MIN :: int where "PAN_MIN = 0"
definition PAN_MAX :: int where "PAN_MAX = 180"
definition TILT_MIN :: int where "TILT_MIN = 0"
definition TILT_MAX :: int where "TILT_MAX = 180"

text \<open>\<^verbatim>\<open>const float SMOOTH_FACTOR = 0.3;\<close>\<close>

definition SMOOTH_FACTOR :: float32 where
  "SMOOTH_FACTOR = fl32 (3 / 10)"

text \<open>
  What \<^verbatim>\<open>parseCommand\<close> sends out: a pulse width to one of the two servos
  (\<^verbatim>\<open>Servo::writeMicroseconds(int)\<close>) or a level to a pin (\<^verbatim>\<open>digitalWrite\<close>, \<open>True\<close>
  for \<^verbatim>\<open>HIGH\<close>). A pulse width is \<open>None\<close> where C++ leaves the conversion that computes
  it undefined.
\<close>

datatype servo = panServo | tiltServo

datatype effect = WriteMicroseconds servo "int option" | DigitalWrite nat bool

text \<open>Line 115 and 116: \<^verbatim>\<open>current + (target - current) * SMOOTH_FACTOR\<close>.\<close>

definition smooth :: "float32 \<Rightarrow> float32 \<Rightarrow> float32" where
  "smooth current target = fadd current (fmul (fsub target current) SMOOTH_FACTOR)"

text \<open>Line 123 and 124: \<^verbatim>\<open>(int)map(current, MIN, MAX, 700, 2500)\<close>.\<close>

definition drive :: "float32 \<Rightarrow> int \<Rightarrow> int \<Rightarrow> int option" where
  "drive current lo hi =
     (case float_to_long current of
        None \<Rightarrow> None
      | Some x \<Rightarrow> map_option int_of_long (map_long x lo hi 700 2500))"

text \<open>The three fields of a line whose colons are at \<open>firstColon\<close> and \<open>secondColon\<close>.\<close>

definition panDelta :: "string \<Rightarrow> int \<Rightarrow> float32" where
  "panDelta command firstColon = toFloat (substring command 0 (nat firstColon))"

definition tiltDelta :: "string \<Rightarrow> int \<Rightarrow> int \<Rightarrow> float32" where
  "tiltDelta command firstColon secondColon =
     toFloat (substring command (nat (firstColon + 1)) (nat secondColon))"

definition laser :: "string \<Rightarrow> int \<Rightarrow> 16 word" where
  "laser command secondColon = ucast (toInt (substring_from command (nat (secondColon + 1))))"

text \<open>Lines 107 to 112: the targets, before and after the limits.\<close>

definition rawTargetPan :: "'a axis_state_scheme \<Rightarrow> float32 \<Rightarrow> float32" where
  "rawTargetPan st pd = fsub (currentPan st) pd"

definition rawTargetTilt :: "'a axis_state_scheme \<Rightarrow> float32 \<Rightarrow> float32" where
  "rawTargetTilt st td = fadd (currentTilt st) td"

definition targetPan :: "'a axis_state_scheme \<Rightarrow> float32 \<Rightarrow> float32" where
  "targetPan st pd = constrain (rawTargetPan st pd) PAN_MIN PAN_MAX"

definition targetTilt :: "'a axis_state_scheme \<Rightarrow> float32 \<Rightarrow> float32" where
  "targetTilt st td = constrain (rawTargetTilt st td) TILT_MIN TILT_MAX"

text \<open>Lines 106 to 126: the body of the \<^verbatim>\<open>if\<close>, given the three converted fields.\<close>

definition apply_command ::
  "'a axis_state_scheme \<Rightarrow> float32 \<Rightarrow> float32 \<Rightarrow> 16 word \<Rightarrow> 'a axis_state_scheme \<times> effect list" where
  "apply_command st pd td las =
     (let st' = st\<lparr>currentPan := smooth (currentPan st) (targetPan st pd),
                    currentTilt := smooth (currentTilt st) (targetTilt st td)\<rparr>
      in (st',
          [WriteMicroseconds panServo (drive (currentPan st') PAN_MIN PAN_MAX),
           WriteMicroseconds tiltServo (drive (currentTilt st') TILT_MIN TILT_MAX),
           DigitalWrite LASER_PIN (las \<noteq> 0)]))"

text \<open>Lines 97 to 100: the positions of the two colons and the test on them.\<close>

definition firstColon :: "string \<Rightarrow> int" where
  "firstColon command = indexOf command CHR '':'' 0"

definition secondColon :: "string \<Rightarrow> int" where
  "secondColon command = indexOf command CHR '':'' (nat (firstColon command + 1))"

definition accepted :: "string \<Rightarrow> bool" where
  "accepted command = (0 < firstColon command \<and> firstColon command < secondColon command)"

text \<open>
  \<^verbatim>\<open>void parseCommand(String command)\<close>: the new globals and the writes, in order. A
  line that fails the test on the colons changes nothing and writes nothing.
\<close>

definition parseCommand :: "'a axis_state_scheme \<Rightarrow> string \<Rightarrow> 'a axis_state_scheme \<times> effect list" where
  "parseCommand st command =
     (if accepted command then
        apply_command st
          (panDelta command (firstColon command))
          (tiltDelta command (firstColon command) (secondColon command))
          (laser command (secondColon command))
      else (st, []))"

text \<open>\<^verbatim>\<open>loop\<close> over the lines that arrive: the globals after the last one.\<close>

fun run :: "'a axis_state_scheme \<Rightarrow> string list \<Rightarrow> 'a axis_state_scheme" where
  "run st [] = st"
| "run st (command # commands) = run (fst (parseCommand st command)) commands"

subsection \<open>Vocabulary of the properties\<close>

text \<open>The exponent of the spacing, and the rationals that are binary32 numbers.\<close>

definition qexp :: "rat \<Rightarrow> nat" where
  "qexp x = nat (bitlen \<lfloor>\<bar>x\<bar> * 2 ^ 149\<rfloor> - 24)"

definition is_float32 :: "rat \<Rightarrow> bool" where
  "is_float32 x = (rnd x = x \<and> \<bar>x\<bar> < 2 ^ 128)"

text \<open>An angle that is a number between two limits.\<close>

fun in_limits :: "float32 \<Rightarrow> int \<Rightarrow> int \<Rightarrow> bool" where
  "in_limits (Finite x) lo hi = (of_int lo \<le> x \<and> x \<le> of_int hi)"
| "in_limits x lo hi = False"

fun angle_ok :: "float32 \<Rightarrow> int \<Rightarrow> int \<Rightarrow> bool" where
  "angle_ok (Finite x) lo hi = (is_float32 x \<and> of_int lo \<le> x \<and> x \<le> of_int hi)"
| "angle_ok x lo hi = False"

definition limits_hold :: "'a axis_state_scheme \<Rightarrow> bool" where
  "limits_hold st =
     (angle_ok (currentPan st) PAN_MIN PAN_MAX \<and> angle_ok (currentTilt st) TILT_MIN TILT_MAX)"

text \<open>A line none of whose two delta fields converts to a NaN (a rejected line has none).\<close>

definition deltas_are_numbers :: "string \<Rightarrow> bool" where
  "deltas_are_numbers command =
     (accepted command \<longrightarrow>
        panDelta command (firstColon command) \<noteq> NaN \<and>
        tiltDelta command (firstColon command) (secondColon command) \<noteq> NaN)"

text \<open>The number of colons of a line.\<close>

definition colon_count :: "string \<Rightarrow> nat" where
  "colon_count s = length (filter (\<lambda>c. c = CHR '':'') s)"

text \<open>
  The flag as the specification reads it: the integer written at the start of the third
  field (white space, an optional sign, digits), with no bound on its size, and 0 when no
  digit is there.
\<close>

definition flag_value :: "string \<Rightarrow> int" where
  "flag_value s =
     (let (neg, s2) = take_sign (dropWhile isspace s);
          v = int (digits_val (takeWhile isdigit s2))
      in if neg then - v else v)"

text \<open>
  The drive value as the specification words it: the angle mapped linearly from
  \<open>[lo, hi]\<close> onto \<open>[700, 2500]\<close> and then truncated to an integer.
\<close>

definition linear_drive :: "rat \<Rightarrow> int \<Rightarrow> int \<Rightarrow> int" where
  "linear_drive a lo hi = truncate_rat (700 + (a - of_int lo) * (2500 - 700) / of_int (hi - lo))"

text \<open>
  Numeric text, as the specification uses the word: after white space and an optional
  sign, a decimal number starts (a digit, or a point and a digit); for the integer flag,
  a digit. The tokens that \<^verbatim>\<open>strtod\<close> reads as an infinity or a NaN are not decimal
  numbers.
\<close>

definition numeric_text :: "string \<Rightarrow> bool" where
  "numeric_text s =
     (case snd (take_sign (dropWhile isspace s)) of
        [] \<Rightarrow> False
      | c # cs \<Rightarrow> isdigit c \<or> (c = CHR ''.'' \<and> (case cs of [] \<Rightarrow> False | d # ds \<Rightarrow> isdigit d)))"

definition integer_text :: "string \<Rightarrow> bool" where
  "integer_text s =
     (case snd (take_sign (dropWhile isspace s)) of [] \<Rightarrow> False | c # cs \<Rightarrow> isdigit c)"

definition special_text :: "string \<Rightarrow> bool" where
  "special_text s =
     (starts_with_ci ''inf'' (snd (take_sign (dropWhile isspace s))) \<or>
      starts_with_ci ''nan'' (snd (take_sign (dropWhile isspace s))))"

section \<open>Rounding\<close>

subsection \<open>Rounding to the nearest integer\<close>

lemma round_even_of_int: "round_even (of_int n) = n"
  by (simp add: round_even_def)

lemma round_even_floor: "\<lfloor>x\<rfloor> \<le> round_even x \<and> round_even x \<le> \<lfloor>x\<rfloor> + 1"
  by (simp add: round_even_def Let_def)

lemma round_even_near: "\<bar>of_int (round_even x) - x\<bar> \<le> 1 / 2"
proof -
  have "of_int \<lfloor>x\<rfloor> \<le> x" "x < of_int \<lfloor>x\<rfloor> + 1" by linarith+
  then show ?thesis by (auto simp: round_even_def Let_def)
qed

lemma round_even_mono: "x \<le> y \<Longrightarrow> round_even x \<le> round_even y"
proof -
  assume xy: "x \<le> y"
  then have fl: "\<lfloor>x\<rfloor> \<le> \<lfloor>y\<rfloor>" by (rule floor_mono)
  show ?thesis
  proof (cases "\<lfloor>x\<rfloor> = \<lfloor>y\<rfloor>")
    case True
    with xy show ?thesis by (auto simp: round_even_def Let_def)
  next
    case False
    with fl have "\<lfloor>x\<rfloor> + 1 \<le> \<lfloor>y\<rfloor>" by simp
    with round_even_floor[of x] round_even_floor[of y] show ?thesis by linarith
  qed
qed

lemma round_even_minus: "round_even (- x) = - round_even x"
proof (cases "x = of_int \<lfloor>x\<rfloor>")
  case True
  then obtain n where "x = of_int n" ..
  then have "- x = of_int (- n)" by simp
  then show ?thesis using \<open>x = of_int n\<close> round_even_of_int by metis
next
  case False
  have a: "of_int \<lfloor>x\<rfloor> < x" "x < of_int \<lfloor>x\<rfloor> + 1" using False by linarith+
  have "\<lfloor>- x\<rfloor> = - \<lfloor>x\<rfloor> - 1"
    by (rule floor_unique) (use a in auto)
  then show ?thesis using a
    by (auto simp: round_even_def Let_def)
qed

subsection \<open>The spacing of binary32 numbers\<close>

lemma quantum_pos: "0 < quantum x"
  by (simp add: quantum_def)

lemma quantum_minus: "quantum (- x) = quantum x"
  by (simp add: quantum_def)

lemma quantum_abs: "quantum \<bar>x\<bar> = quantum x"
  by (simp add: quantum_def)

lemma floor_less_pow: "\<lfloor>y\<rfloor> < 2 ^ n \<longleftrightarrow> y < 2 ^ n" for y :: rat
proof -
  have "\<lfloor>y\<rfloor> < 2 ^ n \<longleftrightarrow> y < of_int (2 ^ n)" by (rule floor_less_iff)
  then show ?thesis by simp
qed

lemma quantum_eqI:
  assumes "\<bar>x\<bar> < 2 ^ (k + 24) / 2 ^ 149" and "k = 0 \<or> 2 ^ (k + 23) / 2 ^ 149 \<le> \<bar>x\<bar>"
  shows "quantum x = 2 ^ k / 2 ^ 149"
proof -
  let ?N = "\<lfloor>\<bar>x\<bar> * 2 ^ 149\<rfloor>"
  from assms(1) have "\<bar>x\<bar> * 2 ^ 149 < 2 ^ (k + 24)" by (simp add: field_simps)
  then have "?N < 2 ^ (k + 24)" by (simp add: floor_less_pow)
  then have le: "bitlen ?N \<le> int k + 24" by (simp add: bitlen_le_iff_power nat_add_distrib)
  show ?thesis
  proof (cases "k = 0")
    case True
    with le show ?thesis by (simp add: quantum_def)
  next
    case False
    with assms(2) have "2 ^ (k + 23) \<le> \<bar>x\<bar> * 2 ^ 149" by (simp add: field_simps)
    then have "\<not> \<bar>x\<bar> * 2 ^ 149 < 2 ^ (k + 23)" by simp
    then have "\<not> ?N < 2 ^ (k + 23)" by (simp add: floor_less_pow)
    then have "\<not> bitlen ?N \<le> int k + 23" by (simp add: bitlen_le_iff_power nat_add_distrib)
    with le have "bitlen ?N = int k + 24" by simp
    then show ?thesis by (simp add: quantum_def)
  qed
qed

lemma quantum_qexp: "quantum x = 2 ^ qexp x / 2 ^ 149"
  by (simp add: quantum_def qexp_def)

lemma quantum_upper: "\<bar>x\<bar> < quantum x * 2 ^ 24"
proof -
  let ?N = "\<lfloor>\<bar>x\<bar> * 2 ^ 149\<rfloor>"
  have "bitlen ?N \<le> int (qexp x) + 24" by (simp add: qexp_def)
  then have "?N < 2 ^ (qexp x + 24)" by (simp add: bitlen_le_iff_power nat_add_distrib)
  then have "\<bar>x\<bar> * 2 ^ 149 < 2 ^ (qexp x + 24)" by (simp add: floor_less_pow)
  then show ?thesis by (simp add: quantum_qexp field_simps power_add)
qed

lemma quantum_lower: "quantum x = 1 / 2 ^ 149 \<or> quantum x * 2 ^ 23 \<le> \<bar>x\<bar>"
proof (cases "qexp x = 0")
  case True
  then show ?thesis by (simp add: quantum_qexp)
next
  case False
  let ?N = "\<lfloor>\<bar>x\<bar> * 2 ^ 149\<rfloor>"
  from False have "\<not> bitlen ?N \<le> int (qexp x) + 23" by (simp add: qexp_def)
  then have "\<not> ?N < 2 ^ (qexp x + 23)" by (simp add: bitlen_le_iff_power nat_add_distrib)
  then have "\<not> \<bar>x\<bar> * 2 ^ 149 < 2 ^ (qexp x + 23)" by (simp add: floor_less_pow)
  then have "quantum x * 2 ^ 23 \<le> \<bar>x\<bar>" by (simp add: quantum_qexp field_simps power_add)
  then show ?thesis ..
qed

lemma qexp_mono: "\<bar>x\<bar> \<le> \<bar>y\<bar> \<Longrightarrow> qexp x \<le> qexp y"
proof -
  assume "\<bar>x\<bar> \<le> \<bar>y\<bar>"
  then have "\<lfloor>\<bar>x\<bar> * 2 ^ 149\<rfloor> \<le> \<lfloor>\<bar>y\<bar> * 2 ^ 149\<rfloor>" by (intro floor_mono) simp
  then have "bitlen \<lfloor>\<bar>x\<bar> * 2 ^ 149\<rfloor> \<le> bitlen \<lfloor>\<bar>y\<bar> * 2 ^ 149\<rfloor>"
    by (simp add: bitlen_def floorlog_mono)
  then show ?thesis by (simp add: qexp_def)
qed

lemma quantum_mono: "\<bar>x\<bar> \<le> \<bar>y\<bar> \<Longrightarrow> quantum x \<le> quantum y"
  by (simp add: quantum_qexp qexp_mono divide_right_mono power_increasing)

subsection \<open>Rounding to binary32: symmetry, exactness, monotonicity\<close>

lemma rnd_minus: "rnd (- x) = - rnd x"
  by (simp add: rnd_def quantum_minus round_even_minus)

lemma rnd_zero: "rnd 0 = 0"
  using round_even_of_int[of 0] by (simp add: rnd_def)

lemma rnd_grid_le: "x \<le> of_int n * quantum x \<Longrightarrow> rnd x \<le> of_int n * quantum x"
proof -
  assume "x \<le> of_int n * quantum x"
  then have "x / quantum x \<le> of_int n" using quantum_pos[of x] by (simp add: field_simps)
  then have "round_even (x / quantum x) \<le> n"
    using round_even_mono round_even_of_int by metis
  then show ?thesis using quantum_pos[of x] by (simp add: rnd_def)
qed

lemma rnd_grid_ge: "of_int n * quantum x \<le> x \<Longrightarrow> of_int n * quantum x \<le> rnd x"
proof -
  assume "of_int n * quantum x \<le> x"
  then have "of_int n \<le> x / quantum x" using quantum_pos[of x] by (simp add: field_simps)
  then have "n \<le> round_even (x / quantum x)"
    using round_even_mono round_even_of_int by metis
  then show ?thesis using quantum_pos[of x] by (simp add: rnd_def)
qed

lemma rnd_nonneg: "0 \<le> x \<Longrightarrow> 0 \<le> rnd x"
  using rnd_grid_ge[of 0 x] by simp

lemma rnd_nonpos: "x \<le> 0 \<Longrightarrow> rnd x \<le> 0"
  using rnd_grid_le[of x 0] by simp

lemma rnd_near: "\<bar>rnd x - x\<bar> \<le> quantum x / 2"
proof -
  let ?q = "quantum x"
  have q: "0 < ?q" by (rule quantum_pos)
  have "rnd x - x = (of_int (round_even (x / ?q)) - x / ?q) * ?q"
    using q by (simp add: rnd_def field_simps)
  then have "\<bar>rnd x - x\<bar> = \<bar>of_int (round_even (x / ?q)) - x / ?q\<bar> * ?q"
    using q by (simp add: abs_mult)
  also have "\<dots> \<le> (1 / 2) * ?q"
    using q round_even_near[of "x / ?q"] by (intro mult_right_mono) auto
  finally show ?thesis by simp
qed

lemma rnd_fix: "x = of_int m * quantum x \<Longrightarrow> rnd x = x"
proof -
  assume a: "x = of_int m * quantum x"
  then have "x / quantum x = of_int m" using quantum_pos[of x] by (simp add: field_simps)
  then have "round_even (x / quantum x) = m" by (simp add: round_even_of_int)
  then show ?thesis using a by (simp add: rnd_def)
qed

lemma qexp_le: "\<bar>x\<bar> < 2 ^ (k + 24) / 2 ^ 149 \<Longrightarrow> qexp x \<le> k"
proof -
  assume "\<bar>x\<bar> < 2 ^ (k + 24) / 2 ^ 149"
  then have "\<bar>x\<bar> * 2 ^ 149 < 2 ^ (k + 24)" by (simp add: field_simps)
  then have "\<lfloor>\<bar>x\<bar> * 2 ^ 149\<rfloor> < 2 ^ (k + 24)" by (simp add: floor_less_pow)
  then have "bitlen \<lfloor>\<bar>x\<bar> * 2 ^ 149\<rfloor> \<le> int k + 24" by (simp add: bitlen_le_iff_power nat_add_distrib)
  then show ?thesis by (simp add: qexp_def)
qed

text \<open>A number with a 24-bit significand and an exponent in range is not changed.\<close>
lemma rnd_representable:
  assumes "\<bar>m\<bar> < 2 ^ 24"
  shows "rnd (of_int m * 2 ^ k / 2 ^ 149) = of_int m * 2 ^ k / 2 ^ 149"
proof -
  let ?x = "of_int m * 2 ^ k / 2 ^ 149 :: rat"
  have "\<bar>?x\<bar> = of_int \<bar>m\<bar> * 2 ^ k / 2 ^ 149" by (simp add: abs_mult)
  also have "\<dots> < 2 ^ 24 * 2 ^ k / 2 ^ 149"
  proof -
    have "(of_int \<bar>m\<bar> :: rat) < of_int (2 ^ 24)" using assms by (simp only: of_int_less_iff)
    then have "(of_int \<bar>m\<bar> :: rat) < 2 ^ 24" by simp
    then show ?thesis by (simp add: divide_strict_right_mono)
  qed
  finally have "\<bar>?x\<bar> < 2 ^ (k + 24) / 2 ^ 149" by (simp add: power_add mult.commute)
  then have j: "qexp ?x \<le> k" by (rule qexp_le)
  have "(2::rat) ^ k = 2 ^ (k - qexp ?x) * 2 ^ qexp ?x"
    using j by (simp flip: power_add)
  then have "?x = of_int (m * 2 ^ (k - qexp ?x)) * quantum ?x"
    by (simp add: quantum_qexp)
  then show ?thesis by (rule rnd_fix)
qed

lemma rnd_mono_nonneg:
  assumes "0 \<le> x" "x \<le> y"
  shows "rnd x \<le> rnd y"
proof (cases "qexp x = qexp y")
  case True
  then have q: "quantum x = quantum y" by (simp add: quantum_qexp)
  have "x / quantum y \<le> y / quantum y" using assms quantum_pos[of y] by (simp add: divide_right_mono)
  then have "round_even (x / quantum y) \<le> round_even (y / quantum y)" by (rule round_even_mono)
  then show ?thesis using quantum_pos[of y] by (simp add: rnd_def q)
next
  case False
  have "qexp x \<le> qexp y" using assms by (intro qexp_mono) simp
  with False have lt: "Suc (qexp x) \<le> qexp y" by simp
  then have "(2::rat) ^ Suc (qexp x) \<le> 2 ^ qexp y" by (intro power_increasing) auto
  then have dbl: "2 * quantum x \<le> quantum y" by (simp add: quantum_qexp divide_right_mono)
  from lt have "0 < qexp y" by simp
  then have "(1::rat) < 2 ^ qexp y" by (intro one_less_power) auto
  then have "quantum y \<noteq> 1 / 2 ^ 149" by (simp add: quantum_qexp)
  with quantum_lower[of y] assms have "of_int (2 ^ 23) * quantum y \<le> y" by (simp add: mult.commute)
  then have ge: "of_int (2 ^ 23) * quantum y \<le> rnd y" by (rule rnd_grid_ge)
  have "x \<le> of_int (2 ^ 24) * quantum x" using quantum_upper[of x] assms by (simp add: mult.commute)
  then have "rnd x \<le> of_int (2 ^ 24) * quantum x" by (rule rnd_grid_le)
  also have "\<dots> \<le> of_int (2 ^ 23) * quantum y" using dbl by simp
  finally show ?thesis using ge by simp
qed

lemma rnd_mono: "x \<le> y \<Longrightarrow> rnd x \<le> rnd y"
proof -
  assume xy: "x \<le> y"
  consider "0 \<le> x" | "y \<le> 0" | "x \<le> 0" "0 \<le> y" by linarith
  then show ?thesis
  proof cases
    case 1
    then show ?thesis using xy by (rule rnd_mono_nonneg)
  next
    case 2
    then have "rnd (- y) \<le> rnd (- x)" using xy by (intro rnd_mono_nonneg) auto
    then show ?thesis by (simp add: rnd_minus)
  next
    case 3
    then show ?thesis using rnd_nonpos[of x] rnd_nonneg[of y] by simp
  qed
qed

subsection \<open>Computing a rounding\<close>

lemma floor_rat_numeral:
  "\<lfloor>numeral a / numeral b :: rat\<rfloor> = numeral a div numeral b"
  "\<lfloor>- (numeral a / numeral b) :: rat\<rfloor> = - numeral a div numeral b"
proof -
  show "\<lfloor>numeral a / numeral b :: rat\<rfloor> = numeral a div numeral b"
    using floor_divide_of_int_eq[of "numeral a" "numeral b", where ?'a = rat] by simp
  show "\<lfloor>- (numeral a / numeral b) :: rat\<rfloor> = - numeral a div numeral b"
    using floor_divide_of_int_eq[of "- numeral a" "numeral b", where ?'a = rat] by simp
qed

lemma rnd_eval:
  assumes "\<bar>x\<bar> < 2 ^ (k + 24) / 2 ^ 149" and "k = 0 \<or> 2 ^ (k + 23) / 2 ^ 149 \<le> \<bar>x\<bar>"
  shows "rnd x = of_int (round_even (x / (2 ^ k / 2 ^ 149))) * (2 ^ k / 2 ^ 149)"
  by (simp only: rnd_def quantum_eqI[OF assms])

lemma rnd_three_tenths: "rnd (3 / 10) = 5033165 / 16777216"
  by (subst rnd_eval[where k = 124]) (simp_all add: round_even_def floor_rat_numeral Let_def)

lemma rnd_int: "\<bar>m\<bar> < 2 ^ 24 \<Longrightarrow> rnd (of_int m) = of_int m"
  using rnd_representable[of m 149] by simp

subsection \<open>A scaled step never passes its end point\<close>

lemma rnd_multiple: "\<exists>n. rnd x = of_int n / 2 ^ 149"
proof -
  have "rnd x = of_int (round_even (x / quantum x) * 2 ^ qexp x) / 2 ^ 149"
    by (simp add: rnd_def quantum_qexp)
  then show ?thesis ..
qed

lemma rnd_small_multiple: "\<bar>n\<bar> < 2 ^ 24 \<Longrightarrow> rnd (of_int n / 2 ^ 149) = of_int n / 2 ^ 149"
  using rnd_representable[of n 0] by simp

lemma scaled_step_le:
  assumes kf: "0 \<le> kf" "kf \<le> 1 / 2" and x: "0 \<le> x" "x = of_int n / 2 ^ 149"
  shows "rnd (rnd x * kf) \<le> x"
proof (cases "n < 2 ^ 24")
  case True
  from x have "0 \<le> n" by (simp add: zero_le_divide_iff)
  with True have "rnd x = x" unfolding x(2) by (intro rnd_small_multiple) simp
  moreover have "x * kf \<le> x" using kf x(1) by (simp add: mult_left_le)
  ultimately show ?thesis using rnd_mono[of "x * kf" x] by simp
next
  case False
  then have "(of_int (2 ^ 24) :: rat) \<le> of_int n" by (simp only: of_int_le_iff)
  then have big: "2 ^ 24 / 2 ^ 149 \<le> x" unfolding x(2) by (simp add: divide_right_mono)
  let ?u = "1 / 2 ^ 149 :: rat"
  have u: "?u \<le> x / 2 ^ 24" using big by (simp add: field_simps)
  have "x < quantum x * 2 ^ 24" using quantum_upper[of x] x(1) by simp
  with big have "quantum x \<noteq> ?u" by auto
  with quantum_lower[of x] x(1) have qx: "quantum x \<le> x / 2 ^ 23" by (simp add: field_simps)
  let ?d = "rnd x"
  have d0: "0 \<le> ?d" using x(1) by (rule rnd_nonneg)
  have "?d \<le> x + quantum x / 2" using rnd_near[of x] by linarith
  with qx have d: "?d \<le> x + x / 2 ^ 24" by simp
  let ?y = "?d * kf"
  have y0: "0 \<le> ?y" using d0 kf by simp
  have "?y \<le> ?d * (1 / 2)" using d0 kf by (intro mult_left_mono) auto
  with d have y: "?y \<le> x / 2 + x / 2 ^ 25" by simp
  have near: "rnd ?y \<le> ?y + quantum ?y / 2" using rnd_near[of ?y] by linarith
  define e where "e = x / 2 ^ 24"
  have e: "0 \<le> e" "e \<le> x / 4" using x(1) by (simp_all add: e_def field_simps)
  have ye: "?y \<le> x / 2 + e" using y x(1) by (simp add: e_def field_simps)
  from quantum_lower[of ?y] have "quantum ?y / 2 \<le> e"
  proof
    assume "quantum ?y = ?u"
    then show ?thesis using u by (simp add: e_def field_simps)
  next
    assume "quantum ?y * 2 ^ 23 \<le> \<bar>?y\<bar>"
    with y0 have "quantum ?y * 2 ^ 23 \<le> x / 2 + x / 2 ^ 25" using y by simp
    also have "\<dots> \<le> x" using x(1) by (simp add: field_simps)
    finally show ?thesis by (simp add: e_def field_simps)
  qed
  with near ye e show ?thesis by linarith
qed

text \<open>One smoothing step on exact values: the result lies between the current value and the target.\<close>

lemma step_between_up:
  assumes kf: "0 \<le> kf" "kf \<le> 1 / 2" and c: "rnd c = c" and t: "rnd t = t" and le: "c \<le> t"
  shows "c \<le> rnd (c + rnd (rnd (t - c) * kf))" and "rnd (c + rnd (rnd (t - c) * kf)) \<le> t"
proof -
  obtain a where a: "c = of_int a / 2 ^ 149" using rnd_multiple[of c] c by auto
  obtain b where b: "t = of_int b / 2 ^ 149" using rnd_multiple[of t] t by auto
  have x: "t - c = of_int (b - a) / 2 ^ 149" by (simp add: a b diff_divide_distrib)
  have x0: "0 \<le> t - c" using le by simp
  let ?s = "rnd (rnd (t - c) * kf)"
  have "?s \<le> t - c" using kf x0 x by (rule scaled_step_le)
  then have "rnd (c + ?s) \<le> rnd t" by (intro rnd_mono) simp
  then show "rnd (c + ?s) \<le> t" by (simp add: t)
  have "0 \<le> rnd (t - c) * kf" using rnd_nonneg[OF x0] kf by simp
  then have "0 \<le> ?s" by (rule rnd_nonneg)
  then have "rnd c \<le> rnd (c + ?s)" by (intro rnd_mono) simp
  then show "c \<le> rnd (c + ?s)" by (simp add: c)
qed

lemma step_between_down:
  assumes kf: "0 \<le> kf" "kf \<le> 1 / 2" and c: "rnd c = c" and t: "rnd t = t" and le: "t \<le> c"
  shows "t \<le> rnd (c + rnd (rnd (t - c) * kf))" and "rnd (c + rnd (rnd (t - c) * kf)) \<le> c"
proof -
  have c': "rnd (- c) = - c" and t': "rnd (- t) = - t" by (simp_all add: rnd_minus c t)
  have le': "- c \<le> - t" using le by simp
  have eq: "rnd (- c + rnd (rnd (- t - - c) * kf)) = - rnd (c + rnd (rnd (t - c) * kf))"
  proof -
    have "rnd (- t - - c) = - rnd (t - c)" using rnd_minus[of "t - c"] by simp
    then have "rnd (rnd (- t - - c) * kf) = - rnd (rnd (t - c) * kf)"
      using rnd_minus[of "rnd (t - c) * kf"] by simp
    then show ?thesis using rnd_minus[of "c + rnd (rnd (t - c) * kf)"] by simp
  qed
  from step_between_up[OF kf c' t' le'] eq
  show "t \<le> rnd (c + rnd (rnd (t - c) * kf))" and "rnd (c + rnd (rnd (t - c) * kf)) \<le> c"
    by simp_all
qed

section \<open>Arithmetic on \<^verbatim>\<open>float\<close>\<close>

lemma round_even_abs_le: "\<bar>x\<bar> \<le> of_int n \<Longrightarrow> \<bar>round_even x\<bar> \<le> n"
proof -
  assume a: "\<bar>x\<bar> \<le> of_int n"
  then have "x \<le> of_int n" "of_int (- n) \<le> x" by (simp_all add: abs_le_iff)
  then have "round_even x \<le> n" "- n \<le> round_even x"
    using round_even_mono round_even_of_int by metis+
  then show ?thesis by simp
qed

lemma rnd_idem: "rnd (rnd x) = rnd x"
proof -
  let ?n = "round_even (x / quantum x)"
  have eq: "rnd x = of_int ?n * 2 ^ qexp x / 2 ^ 149" by (simp add: rnd_def quantum_qexp)
  have "\<bar>x / quantum x\<bar> \<le> of_int (2 ^ 24)"
    using quantum_upper[of x] quantum_pos[of x] by (simp add: field_simps)
  then have "\<bar>?n\<bar> \<le> 2 ^ 24" by (rule round_even_abs_le)
  then consider "\<bar>?n\<bar> < 2 ^ 24" | "?n = 2 ^ 24" | "?n = - (2 ^ 24)" by linarith
  then show ?thesis
  proof cases
    case 1
    then show ?thesis unfolding eq by (rule rnd_representable)
  next
    case 2
    have a: "rnd x = of_int (2 ^ 23) * 2 ^ Suc (qexp x) / 2 ^ 149" by (simp add: eq 2)
    have b: "rnd (of_int (2 ^ 23) * 2 ^ Suc (qexp x) / 2 ^ 149) = of_int (2 ^ 23) * 2 ^ Suc (qexp x) / 2 ^ 149"
      by (rule rnd_representable) simp
    show ?thesis by (simp only: a b)
  next
    case 3
    have a: "rnd x = of_int (- (2 ^ 23)) * 2 ^ Suc (qexp x) / 2 ^ 149" by (simp add: eq 3)
    have b: "rnd (of_int (- (2 ^ 23)) * 2 ^ Suc (qexp x) / 2 ^ 149) = of_int (- (2 ^ 23)) * 2 ^ Suc (qexp x) / 2 ^ 149"
      by (rule rnd_representable) simp
    show ?thesis by (simp only: a b)
  qed
qed

lemma fl32_Finite: "\<bar>rnd x\<bar> < 2 ^ 128 \<Longrightarrow> fl32 x = Finite (rnd x)"
  by (auto simp: fl32_def Let_def)

lemma fl32_Finite_float: "fl32 x = Finite r \<Longrightarrow> is_float32 r"
  by (auto simp: fl32_def Let_def is_float32_def rnd_idem split: if_splits)

lemma fl32_not_NaN: "fl32 x \<noteq> NaN"
  by (simp add: fl32_def Let_def)

lemma fl32_float: "is_float32 x \<Longrightarrow> fl32 x = Finite x"
  by (simp add: is_float32_def fl32_Finite)

lemma rnd_abs_le:
  assumes "\<bar>x\<bar> \<le> b" "rnd b = b"
  shows "\<bar>rnd x\<bar> \<le> b"
proof -
  have "x \<le> b" "- b \<le> x" using assms(1) by linarith+
  then have "rnd x \<le> rnd b" "rnd (- b) \<le> rnd x" by (auto intro: rnd_mono)
  then show ?thesis by (simp add: rnd_minus assms(2))
qed

lemma is_float32_int: "\<bar>m\<bar> < 2 ^ 24 \<Longrightarrow> is_float32 (of_int m)"
proof -
  assume a: "\<bar>m\<bar> < 2 ^ 24"
  then have "(of_int \<bar>m\<bar> :: rat) < of_int (2 ^ 24)" by (simp only: of_int_less_iff)
  then have "\<bar>of_int m :: rat\<bar> < 2 ^ 24" by simp
  also have "\<dots> < 2 ^ 128" by simp
  finally show ?thesis using a by (simp add: is_float32_def rnd_int)
qed

lemma float_of_int_small: "\<bar>m\<bar> < 2 ^ 24 \<Longrightarrow> float_of_int m = Finite (of_int m)"
  by (simp add: float_of_int_def fl32_float is_float32_int)

lemma rnd_pow2_126: "rnd (2 ^ 126) = 2 ^ 126"
  using rnd_representable[of "2 ^ 23" 252] by simp

lemma rnd_pow2_127: "rnd (2 ^ 127) = 2 ^ 127"
  using rnd_representable[of "2 ^ 23" 253] by simp

lemma SMOOTH_FACTOR_value: "SMOOTH_FACTOR = Finite (5033165 / 16777216)"
  by (simp add: SMOOTH_FACTOR_def fl32_Finite rnd_three_tenths)

subsection \<open>The pulse width and the smoothing step\<close>

lemma int_of_long_small: "- (2 ^ 15) \<le> v \<Longrightarrow> v < 2 ^ 15 \<Longrightarrow> int_of_long v = v"
  by (simp add: int_of_long_def signed_of_int signed_take_bit_int_eq_self)

lemma c_div_nonneg: "0 \<le> a \<Longrightarrow> 0 < b \<Longrightarrow> c_div a b = a div b"
  by (cases "a = 0") (simp_all add: c_div_def)

lemma drive_in_limits:
  assumes "0 \<le> a" "a \<le> 180"
  shows "drive (Finite a) 0 180 = Some (700 + 10 * \<lfloor>a\<rfloor>)"
proof -
  define n where "n = \<lfloor>a\<rfloor>"
  have f: "0 \<le> n" "n \<le> 180" using assms by (simp_all add: n_def floor_le_iff)
  have "truncate_rat a = n" using assms by (simp add: truncate_rat_def n_def)
  moreover have "long_ok n" using f by (simp add: long_ok_def)
  ultimately have conv: "float_to_long (Finite a) = Some n" by simp
  have ok: "long_ok (n * 1800)" "long_ok (10 * n)" "long_ok (10 * n + 700)"
    using f by (simp_all add: long_ok_def)
  have "c_div (n * 1800) 180 = 10 * n" using f by (simp add: c_div_nonneg)
  then have "map_long n 0 180 700 2500 = Some (10 * n + 700)"
    using ok by (simp add: map_long_def long_ok_def Let_def)
  moreover have "int_of_long (10 * n + 700) = 10 * n + 700"
    using f by (intro int_of_long_small) simp_all
  ultimately have "drive (Finite a) 0 180 = Some (10 * n + 700)"
    by (simp add: drive_def conv del: float_to_long.simps)
  then show ?thesis by (simp add: n_def)
qed

lemma kf_bounds: "(0::rat) \<le> 5033165 / 16777216" "(5033165 / 16777216 :: rat) \<le> 1 / 2"
  by simp_all

lemma smooth_Finite:
  assumes c: "is_float32 c" "\<bar>c\<bar> \<le> 2 ^ 126" and t: "is_float32 t" "\<bar>t\<bar> \<le> 2 ^ 126"
  defines "r \<equiv> rnd (c + rnd (rnd (t - c) * (5033165 / 16777216)))"
  shows "smooth (Finite c) (Finite t) = Finite r" and "is_float32 r"
    and "min c t \<le> r" and "r \<le> max c t"
proof -
  let ?kf = "5033165 / 16777216 :: rat"
  let ?d = "rnd (t - c)"
  let ?s = "rnd (?d * ?kf)"
  have rc: "rnd c = c" and rt: "rnd t = t" using c t by (simp_all add: is_float32_def)
  have "\<bar>t - c\<bar> \<le> 2 ^ 127" using c(2) t(2) by simp
  then have d: "\<bar>?d\<bar> \<le> 2 ^ 127" using rnd_pow2_127 by (rule rnd_abs_le)
  then have sub: "fsub (Finite t) (Finite c) = Finite ?d"
    by (simp add: fsub_def fl32_Finite)
  have "\<bar>?d * ?kf\<bar> \<le> \<bar>?d\<bar>" by (simp add: abs_mult mult_left_le)
  with d have "\<bar>?d * ?kf\<bar> \<le> 2 ^ 127" by linarith
  then have s: "\<bar>?s\<bar> \<le> 2 ^ 127" using rnd_pow2_127 by (rule rnd_abs_le)
  then have mul: "fmul (Finite ?d) SMOOTH_FACTOR = Finite ?s"
    by (simp add: SMOOTH_FACTOR_value fl32_Finite)
  have btw: "min c t \<le> r \<and> r \<le> max c t"
  proof (cases "c \<le> t")
    case True
    from step_between_up[OF kf_bounds rc rt True] show ?thesis using True by (simp add: r_def)
  next
    case False
    then have le: "t \<le> c" by simp
    from step_between_down[OF kf_bounds rc rt le] show ?thesis using le by (simp add: r_def)
  qed
  then show "min c t \<le> r" and "r \<le> max c t" by simp_all
  from btw c(2) t(2) have "\<bar>r\<bar> \<le> 2 ^ 126" by (simp add: abs_le_iff min_def max_def split: if_splits)
  then have rb: "\<bar>r\<bar> < 2 ^ 128" by simp
  then show "smooth (Finite c) (Finite t) = Finite r"
    by (simp add: smooth_def sub mul fl32_Finite r_def)
  show "is_float32 r" using rb by (simp add: is_float32_def r_def rnd_idem)
qed

subsection \<open>The limits are kept while no delta is a NaN\<close>

lemma angle_okD:
  assumes "angle_ok f lo hi"
  obtains x where "f = Finite x" "is_float32 x" "of_int lo \<le> x" "x \<le> of_int hi"
  using assms by (cases f) auto

lemma angle_ok_in_limits: "angle_ok f lo hi \<Longrightarrow> in_limits f lo hi"
  by (cases f) auto

lemma fadd_Finite_result:
  "y \<noteq> NaN \<Longrightarrow> fadd (Finite c) y \<noteq> NaN"
  "fadd (Finite c) y = Finite r \<Longrightarrow> is_float32 r"
  by (cases y; simp add: fl32_not_NaN fl32_Finite_float)+

lemma fneg_NaN: "fneg y = NaN \<longleftrightarrow> y = NaN"
  by (cases y) simp_all

lemma fsub_Finite_result:
  "y \<noteq> NaN \<Longrightarrow> fsub (Finite c) y \<noteq> NaN"
  "fsub (Finite c) y = Finite r \<Longrightarrow> is_float32 r"
  by (simp_all add: fsub_def fadd_Finite_result fneg_NaN)

lemma constrain_angle_ok:
  assumes "f \<noteq> NaN" and "\<And>r. f = Finite r \<Longrightarrow> is_float32 r"
    and "lo \<le> hi" "\<bar>lo\<bar> < 2 ^ 24" "\<bar>hi\<bar> < 2 ^ 24"
  shows "angle_ok (constrain f lo hi) lo hi"
proof -
  have lo: "float_of_int lo = Finite (of_int lo)" and hi: "float_of_int hi = Finite (of_int hi)"
    using assms(4,5) by (simp_all add: float_of_int_small)
  have flo: "is_float32 (of_int lo)" and fhi: "is_float32 (of_int hi)"
    using assms(4,5) by (simp_all add: is_float32_int)
  show ?thesis
  proof (cases f)
    case (Finite r)
    with assms(2) have "is_float32 r" by simp
    with Finite flo fhi assms(3) show ?thesis
      by (simp add: constrain_def lo hi fgt_def)
  next
    case PInf
    with flo fhi assms(3) show ?thesis by (simp add: constrain_def lo hi fgt_def)
  next
    case NInf
    with flo fhi assms(3) show ?thesis by (simp add: constrain_def lo hi fgt_def)
  next
    case NaN
    with assms(1) show ?thesis by simp
  qed
qed

lemma smooth_angle_ok:
  assumes "angle_ok c 0 180" "angle_ok t 0 180"
  shows "angle_ok (smooth c t) 0 180"
proof -
  from assms(1) obtain x where x: "c = Finite x" "is_float32 x" "0 \<le> x" "x \<le> 180"
    by (elim angle_okD) simp
  from assms(2) obtain y where y: "t = Finite y" "is_float32 y" "0 \<le> y" "y \<le> 180"
    by (elim angle_okD) simp
  have bx: "\<bar>x\<bar> \<le> 2 ^ 126" and "\<bar>y\<bar> \<le> 2 ^ 126" using x y by simp_all
  note sm = smooth_Finite[OF x(2) bx y(2) this(2)]
  from sm(3,4) x(3,4) y(3,4)
  have "0 \<le> rnd (x + rnd (rnd (y - x) * (5033165 / 16777216)))"
    and "rnd (x + rnd (rnd (y - x) * (5033165 / 16777216))) \<le> 180"
    by linarith+
  with sm(1,2) x(1) y(1) show ?thesis by simp
qed

lemma apply_command_limits:
  assumes "limits_hold st" "pd \<noteq> NaN" "td \<noteq> NaN"
  shows "limits_hold (fst (apply_command st pd td las))"
proof -
  from assms(1) have p: "angle_ok (currentPan st) 0 180" and t: "angle_ok (currentTilt st) 0 180"
    by (simp_all add: limits_hold_def PAN_MIN_def PAN_MAX_def TILT_MIN_def TILT_MAX_def)
  from p obtain x where x: "currentPan st = Finite x" by (elim angle_okD)
  from t obtain y where y: "currentTilt st = Finite y" by (elim angle_okD)
  have "angle_ok (targetPan st pd) 0 180"
    unfolding targetPan_def rawTargetPan_def PAN_MIN_def PAN_MAX_def x
    using assms(2) by (intro constrain_angle_ok) (simp_all add: fsub_Finite_result)
  with p have 1: "angle_ok (smooth (currentPan st) (targetPan st pd)) 0 180"
    by (rule smooth_angle_ok)
  have "angle_ok (targetTilt st td) 0 180"
    unfolding targetTilt_def rawTargetTilt_def TILT_MIN_def TILT_MAX_def y
    using assms(3) by (intro constrain_angle_ok) (simp_all add: fadd_Finite_result)
  with t have 2: "angle_ok (smooth (currentTilt st) (targetTilt st td)) 0 180"
    by (rule smooth_angle_ok)
  from 1 2 show ?thesis
    by (simp add: apply_command_def Let_def limits_hold_def PAN_MIN_def PAN_MAX_def TILT_MIN_def TILT_MAX_def)
qed

lemma parseCommand_limits:
  "limits_hold st \<Longrightarrow> deltas_are_numbers command \<Longrightarrow> limits_hold (fst (parseCommand st command))"
  by (simp add: parseCommand_def deltas_are_numbers_def apply_command_limits)

lemma initial_state_value: "initial_state = \<lparr>currentPan = Finite 90, currentTilt = Finite 90\<rparr>"
  using float_of_int_small[of 90] by (simp add: initial_state_def)

lemma limits_hold_initial: "limits_hold initial_state"
  using is_float32_int[of 90]
  by (simp add: initial_state_value limits_hold_def PAN_MIN_def PAN_MAX_def TILT_MIN_def TILT_MAX_def)

lemma run_limits:
  "limits_hold st \<Longrightarrow> \<forall>command \<in> set commands. deltas_are_numbers command \<Longrightarrow> limits_hold (run st commands)"
  by (induction commands arbitrary: st) (simp_all add: parseCommand_limits)

section \<open>Splitting a line\<close>

lemma strchr_append_found:
  "ch \<noteq> CHR 0x00 \<Longrightarrow> ch \<notin> set a \<Longrightarrow> CHR 0x00 \<notin> set a \<Longrightarrow> strchr (a @ ch # r) ch = Some (length a)"
  by (induction a) auto

lemma strchr_append_NUL:
  "ch \<noteq> CHR 0x00 \<Longrightarrow> ch \<notin> set a \<Longrightarrow> CHR 0x00 \<in> set a \<Longrightarrow> strchr (a @ r) ch = None"
  by (induction a) auto

lemma strchr_SomeD:
  "ch \<noteq> CHR 0x00 \<Longrightarrow> strchr s ch = Some k \<Longrightarrow> k < length s \<and> s ! k = ch"
  by (induction s arbitrary: k) (auto split: if_splits)

lemma cstr_id: "CHR 0x00 \<notin> set s \<Longrightarrow> cstr s = s"
  by (auto simp: cstr_def takeWhile_eq_all_conv)

lemma colon_not_NUL: "CHR '':'' \<noteq> CHR 0x00"
  by simp

lemma firstColon_append:
  assumes "CHR '':'' \<notin> set a"
  shows "firstColon (a @ CHR '':'' # r) = (if CHR 0x00 \<in> set a then - 1 else int (length a))"
proof (cases "CHR 0x00 \<in> set a")
  case True
  from strchr_append_NUL[OF colon_not_NUL assms True, of "CHR '':'' # r"]
  show ?thesis using True by (simp add: firstColon_def indexOf_def)
next
  case False
  from strchr_append_found[OF colon_not_NUL assms False, of r]
  show ?thesis using False by (simp add: firstColon_def indexOf_def)
qed

lemma secondColon_append:
  assumes "CHR '':'' \<notin> set a" "CHR 0x00 \<notin> set a" "CHR '':'' \<notin> set b"
  shows "secondColon (a @ CHR '':'' # b @ CHR '':'' # r) =
           (if CHR 0x00 \<in> set b then - 1 else int (length a + 1 + length b))"
proof -
  let ?s = "a @ CHR '':'' # b @ CHR '':'' # r"
  have f: "firstColon ?s = int (length a)" using assms(1,2) by (simp add: firstColon_append)
  have d: "drop (Suc (length a)) ?s = b @ CHR '':'' # r" by simp
  have n: "nat (int (length a) + 1) = Suc (length a)" by simp
  show ?thesis
  proof (cases "CHR 0x00 \<in> set b")
    case True
    from strchr_append_NUL[OF colon_not_NUL assms(3) True, of "CHR '':'' # r"]
    show ?thesis using True by (simp only: secondColon_def f n indexOf_def d) simp
  next
    case False
    from strchr_append_found[OF colon_not_NUL assms(3) False, of r]
    show ?thesis using False by (simp only: secondColon_def f n indexOf_def d) simp
  qed
qed

lemma parseCommand_fields:
  assumes "CHR '':'' \<notin> set a" "CHR '':'' \<notin> set b"
  shows "parseCommand st (a @ CHR '':'' # b @ CHR '':'' # r) =
           (if a = [] \<or> CHR 0x00 \<in> set a \<or> CHR 0x00 \<in> set b then (st, [])
            else apply_command st (toFloat a) (toFloat b) (ucast (toInt (cstr r))))"
proof -
  let ?s = "a @ CHR '':'' # b @ CHR '':'' # r"
  show ?thesis
  proof (cases "a = [] \<or> CHR 0x00 \<in> set a")
    case True
    then have "\<not> 0 < firstColon ?s" using assms(1) by (auto simp: firstColon_append)
    then show ?thesis using True by (auto simp: parseCommand_def accepted_def)
  next
    case False
    then have a: "a \<noteq> []" "CHR 0x00 \<notin> set a" by simp_all
    have f: "firstColon ?s = int (length a)" using assms(1) a by (simp add: firstColon_append)
    show ?thesis
    proof (cases "CHR 0x00 \<in> set b")
      case True
      then have "secondColon ?s = - 1" using assms a by (simp add: secondColon_append)
      then show ?thesis using True f by (simp add: parseCommand_def accepted_def)
    next
      case b: False
      have g: "secondColon ?s = int (length a + 1 + length b)"
        using assms a b by (simp add: secondColon_append)
      have acc: "accepted ?s" using a by (simp add: accepted_def f g)
      have pd: "panDelta ?s (int (length a)) = toFloat a"
        using a by (simp add: panDelta_def substring_def cstr_id)
      have td: "tiltDelta ?s (int (length a)) (int (length a + 1 + length b)) = toFloat b"
        using b by (simp add: tiltDelta_def substring_def cstr_id nat_add_distrib)
      have "substring_from ?s (Suc (Suc (length a + length b))) = cstr r"
        by (cases r) (simp_all add: substring_from_def substring_def cstr_def)
      then have las: "laser ?s (int (length a + 1 + length b)) = ucast (toInt (cstr r))"
        by (simp add: laser_def nat_add_distrib)
      have "parseCommand st ?s =
              apply_command st (panDelta ?s (firstColon ?s))
                (tiltDelta ?s (firstColon ?s) (secondColon ?s)) (laser ?s (secondColon ?s))"
        using acc by (simp add: parseCommand_def)
      then have "parseCommand st ?s = apply_command st (toFloat a) (toFloat b) (ucast (toInt (cstr r)))"
        by (simp only: f g pd td las)
      then show ?thesis using a b by simp
    qed
  qed
qed

lemma accepted_fields:
  assumes "CHR '':'' \<notin> set a" "CHR '':'' \<notin> set b"
  shows "accepted (a @ CHR '':'' # b @ CHR '':'' # r) \<longleftrightarrow>
           a \<noteq> [] \<and> CHR 0x00 \<notin> set a \<and> CHR 0x00 \<notin> set b"
proof (cases "CHR 0x00 \<in> set a")
  case True
  then show ?thesis using assms(1) by (simp add: accepted_def firstColon_append)
next
  case False
  then show ?thesis using assms
    by (auto simp: accepted_def firstColon_append secondColon_append)
qed

lemma apply_command_state:
  "fst (apply_command st pd td las) =
     st\<lparr>currentPan := smooth (currentPan st) (targetPan st pd),
        currentTilt := smooth (currentTilt st) (targetTilt st td)\<rparr>"
  by (simp add: apply_command_def Let_def)

lemma apply_command_writes:
  "snd (apply_command st pd td las) =
     [WriteMicroseconds panServo (drive (smooth (currentPan st) (targetPan st pd)) PAN_MIN PAN_MAX),
      WriteMicroseconds tiltServo (drive (smooth (currentTilt st) (targetTilt st td)) TILT_MIN TILT_MAX),
      DigitalWrite LASER_PIN (las \<noteq> 0)]"
  by (simp add: apply_command_def Let_def)

subsection \<open>Rejected lines\<close>

lemma strchr_Some_pos:
  "strchr s ch = Some k \<Longrightarrow> 0 < k \<Longrightarrow> takeWhile (\<lambda>c. c \<noteq> ch) s \<noteq> []"
  by (cases s) (auto split: if_splits)

lemma indexOf_found:
  assumes "ch \<noteq> CHR 0x00" "0 \<le> indexOf s ch from"
  shows "int from \<le> indexOf s ch from" "nat (indexOf s ch from) < length s"
    "s ! nat (indexOf s ch from) = ch"
proof -
  from assms(2) have len: "from < length s" by (auto simp: indexOf_def split: if_splits)
  with assms(2) obtain k where k: "strchr (drop from s) ch = Some k" "indexOf s ch from = int (from + k)"
    by (auto simp: indexOf_def split: option.splits)
  from strchr_SomeD[OF assms(1) k(1)] have "k < length s - from" "drop from s ! k = ch" by simp_all
  then show "int from \<le> indexOf s ch from" "nat (indexOf s ch from) < length s"
    "s ! nat (indexOf s ch from) = ch"
    using len by (simp_all add: k(2) nat_add_distrib del: of_nat_add)
qed

lemma two_positions_count:
  assumes "i < j" "j < length s" "s ! i = c" "s ! j = c"
  shows "2 \<le> length (filter (\<lambda>x. x = c) s)"
proof -
  have s: "s = take j s @ s ! j # drop (Suc j) s" using assms(2) by (rule id_take_nth_drop)
  have "take j s ! i = c" using assms(1,3) by simp
  moreover have "i < length (take j s)" using assms(1,2) by simp
  ultimately have "c \<in> set (take j s)" using nth_mem by metis
  then have "filter (\<lambda>x. x = c) (take j s) \<noteq> []" by (auto simp: filter_empty_conv)
  then have "1 \<le> length (filter (\<lambda>x. x = c) (take j s))" by (cases "filter (\<lambda>x. x = c) (take j s)") simp_all
  moreover have "length (filter (\<lambda>x. x = c) s) =
      length (filter (\<lambda>x. x = c) (take j s)) + length (filter (\<lambda>x. x = c) (s ! j # drop (Suc j) s))"
    by (subst s) (simp only: filter_append length_append)
  ultimately show ?thesis using assms(4) by simp
qed

lemma accepted_shape:
  assumes "accepted command"
  shows "takeWhile (\<lambda>c. c \<noteq> CHR '':'') command \<noteq> []" and "2 \<le> colon_count command"
proof -
  let ?p1 = "firstColon command" and ?p2 = "secondColon command"
  from assms have p: "0 < ?p1" "?p1 < ?p2" by (simp_all add: accepted_def)
  from p(1) obtain k where k: "strchr command CHR '':'' = Some k" "0 < k"
    by (auto simp: firstColon_def indexOf_def split: if_splits option.splits)
  then show "takeWhile (\<lambda>c. c \<noteq> CHR '':'') command \<noteq> []" by (rule strchr_Some_pos)
  have 1: "nat ?p1 < length command" "command ! nat ?p1 = CHR '':''"
    using indexOf_found[OF colon_not_NUL, of command 0] p(1) by (simp_all add: firstColon_def)
  have "0 \<le> indexOf command CHR '':'' (nat (?p1 + 1))" using p by (simp add: secondColon_def)
  from indexOf_found[OF colon_not_NUL this]
  have 2: "nat ?p2 < length command" "command ! nat ?p2 = CHR '':''"
    by (simp_all add: secondColon_def)
  have "nat ?p1 < nat ?p2" using p by simp
  from two_positions_count[OF this 2(1) 1(2) 2(2)]
  show "2 \<le> colon_count command" by (simp add: colon_count_def)
qed

text \<open>
  Claim C2. A line with nothing before its first colon (no colon at all, or a colon as
  first character) or with fewer than two colons is discarded: the angles are unchanged
  and nothing is written to the servos or to the laser pin.
\<close>

theorem C2_malformed_line_is_discarded:
  assumes "takeWhile (\<lambda>c. c \<noteq> CHR '':'') command = [] \<or> colon_count command < 2"
  shows "parseCommand st command = (st, [])"
proof -
  have "\<not> accepted command" using assms accepted_shape[of command] by auto
  then show ?thesis by (simp add: parseCommand_def)
qed

text \<open>The lines \<^verbatim>\<open>hello\<close>, \<^verbatim>\<open>1.0:2.0\<close> and \<^verbatim>\<open>:1:2\<close> are such lines.\<close>

theorem C2_witness:
  "parseCommand initial_state ''hello'' = (initial_state, []) \<and>
   parseCommand initial_state ''1.0:2.0'' = (initial_state, []) \<and>
   parseCommand initial_state '':1:2'' = (initial_state, []) \<and>
   colon_count ''hello'' = 0 \<and> colon_count ''1.0:2.0'' = 1 \<and>
   takeWhile (\<lambda>c. c \<noteq> CHR '':'') '':1:2'' = []"
  using C2_malformed_line_is_discarded[of "''hello''" initial_state]
    C2_malformed_line_is_discarded[of "''1.0:2.0''" initial_state]
    C2_malformed_line_is_discarded[of "'':1:2''" initial_state]
  by (simp add: colon_count_def)

section \<open>Conversions and smoothing steps at particular values\<close>

lemma fl32_numeral: "(numeral n :: int) < 2 ^ 24 \<Longrightarrow> fl32 (numeral n) = Finite (numeral n)"
  using is_float32_int[of "numeral n"] by (simp add: fl32_float)

lemma fl32_neg_numeral: "(numeral n :: int) < 2 ^ 24 \<Longrightarrow> fl32 (- numeral n) = Finite (- numeral n)"
  using is_float32_int[of "- numeral n"] by (simp add: fl32_float)

lemma fl32_0: "fl32 0 = Finite 0"
  using is_float32_int[of 0] by (simp add: fl32_float)

lemma fl32_1: "fl32 1 = Finite 1"
  using is_float32_int[of 1] by (simp add: fl32_float)

lemmas strtod_eval = toFloat_def strtod_def isspace_def isdigit_def starts_with_ci_def tolower_def
  digits_val_def digit_val_def exponent_part_def pow10_def Let_def

lemma toFloat_10: "toFloat ''10'' = Finite 10"
  by (simp add: strtod_eval fl32_numeral)

lemma toFloat_20: "toFloat ''20'' = Finite 20"
  by (simp add: strtod_eval fl32_numeral)

lemma toFloat_0: "toFloat ''0'' = Finite 0"
  by (simp add: strtod_eval fl32_0)

lemma toFloat_2_0: "toFloat ''2.0'' = Finite 2"
  by (simp add: strtod_eval fl32_numeral)

lemma toFloat_abc: "toFloat ''abc'' = Finite 0"
  by (simp add: strtod_eval)

lemma toFloat_nan: "toFloat ''nan'' = NaN"
  by (simp add: strtod_eval)

lemma toFloat_empty: "toFloat [] = Finite 0"
  by (simp add: strtod_eval)

lemmas atol_eval = toInt_def atol_def isspace_def isdigit_def digit_val_def Let_def

lemma toInt_vals: "toInt ''0'' = 0" "toInt ''1'' = 1" "toInt ''3:4'' = 3" "toInt [] = 0"
  by (simp_all add: atol_eval)


lemma rnd_numeral: "(numeral n :: int) < 2 ^ 24 \<Longrightarrow> rnd (numeral n) = numeral n"
  using rnd_int[of "numeral n"] by simp

lemma rnd_neg_numeral: "(numeral n :: int) < 2 ^ 24 \<Longrightarrow> rnd (- numeral n) = - numeral n"
  using rnd_int[of "- numeral n"] by simp

lemma smooth_eval:
  assumes "rnd (t - c) = d" "\<bar>d\<bar> < 2 ^ 128"
    and "rnd (d * (5033165 / 16777216)) = s" "\<bar>s\<bar> < 2 ^ 128"
    and "rnd (c + s) = r" "\<bar>r\<bar> < 2 ^ 128"
  shows "smooth (Finite c) (Finite t) = Finite r"
proof -
  have "fsub (Finite t) (Finite c) = Finite d"
    using assms(1,2) by (simp add: fsub_def fl32_Finite)
  moreover have "fmul (Finite d) SMOOTH_FACTOR = Finite s"
    using assms(3,4) by (simp add: SMOOTH_FACTOR_value fl32_Finite)
  moreover have "fadd (Finite c) (Finite s) = Finite r"
    using assms(5,6) by (simp add: fl32_Finite)
  ultimately show ?thesis by (simp add: smooth_def)
qed

lemmas round_eval = round_even_def floor_rat_numeral Let_def

lemma smooth_90_80: "smooth (Finite 90) (Finite 80) = Finite 87"
proof (rule smooth_eval)
  show "rnd (80 - 90) = - 10" by (simp add: rnd_neg_numeral)
  show "rnd (- 10 * (5033165 / 16777216)) = - 3"
    by (subst rnd_eval[where k = 127]) (simp_all add: round_eval)
  show "rnd (90 + - 3) = 87" by (simp add: rnd_numeral)
qed simp_all

lemma smooth_90_100: "smooth (Finite 90) (Finite 100) = Finite 93"
proof (rule smooth_eval)
  show "rnd (100 - 90) = 10" by (simp add: rnd_numeral)
  show "rnd (10 * (5033165 / 16777216)) = 3"
    by (subst rnd_eval[where k = 127]) (simp_all add: round_eval)
  show "rnd (90 + 3) = 93" by (simp add: rnd_numeral)
qed simp_all

lemma smooth_5_0: "smooth (Finite 5) (Finite 0) = Finite (7 / 2)"
proof (rule smooth_eval)
  show "rnd (0 - 5) = - 5" by (simp add: rnd_neg_numeral)
  show "rnd (- 5 * (5033165 / 16777216)) = - (3 / 2)"
    by (subst rnd_eval[where k = 126]) (simp_all add: round_eval)
  show "rnd (5 + - (3 / 2)) = 7 / 2"
    by (subst rnd_eval[where k = 127]) (simp_all add: round_eval)
qed simp_all

lemma smooth_90_90: "smooth (Finite 90) (Finite 90) = Finite 90"
proof (rule smooth_eval)
  show "rnd (90 - 90) = 0" by (simp add: rnd_zero)
  show "rnd (0 * (5033165 / 16777216)) = 0" by (simp add: rnd_zero)
  show "rnd (90 + 0) = 90" by (simp add: rnd_numeral)
qed simp_all

section \<open>Targets, smoothing and writes\<close>

lemma split_10_10_0: "''10:10:0'' = ''10'' @ CHR '':'' # ''10'' @ CHR '':'' # ''0''"
  by simp

lemma parse_10_10_0:
  "parseCommand st ''10:10:0'' = apply_command st (Finite 10) (Finite 10) 0"
  by (simp only: split_10_10_0, subst parseCommand_fields)
     (simp_all add: toFloat_10 cstr_def toInt_vals)

lemmas field_eval = accepted_def firstColon_def secondColon_def indexOf_def
  panDelta_def tiltDelta_def laser_def substring_def substring_from_def cstr_def

lemma fields_10_10_0:
  "accepted ''10:10:0''"
  "panDelta ''10:10:0'' (firstColon ''10:10:0'') = Finite 10"
  "tiltDelta ''10:10:0'' (firstColon ''10:10:0'') (secondColon ''10:10:0'') = Finite 10"
  "laser ''10:10:0'' (secondColon ''10:10:0'') = 0"
  by (simp_all add: field_eval toFloat_10 toInt_vals)

lemma float_of_int_0: "float_of_int 0 = Finite 0"
  using float_of_int_small[of 0] by simp

lemma float_of_int_180: "float_of_int 180 = Finite 180"
  using float_of_int_small[of 180] by simp

lemmas limit_eval = PAN_MIN_def PAN_MAX_def TILT_MIN_def TILT_MAX_def constrain_def fgt_def
  float_of_int_0 float_of_int_180

lemma targets_10_10:
  "rawTargetPan initial_state (Finite 10) = Finite 80"
  "rawTargetTilt initial_state (Finite 10) = Finite 100"
  "targetPan initial_state (Finite 10) = Finite 80"
  "targetTilt initial_state (Finite 10) = Finite 100"
  by (simp_all add: targetPan_def targetTilt_def rawTargetPan_def rawTargetTilt_def
      initial_state_value fsub_def fl32_numeral limit_eval)

text \<open>
  Claim C3. For every accepted command the new pan angle is the smoothing of the old one
  towards the clamped difference \<open>currentPan - panDelta\<close>, and the new tilt angle the
  smoothing towards the clamped sum \<open>currentTilt + tiltDelta\<close>; on numbers the difference
  and the sum are the exact ones, rounded to \<^verbatim>\<open>float\<close>. From 90 and 90 the command
  \<^verbatim>\<open>10:10:0\<close> has the targets 80 and 100 and leaves the angles at exactly 87 and 93.
\<close>

theorem C3_pan_subtracts_tilt_adds:
  "(accepted command \<longrightarrow>
      fst (parseCommand st command) =
        st\<lparr>currentPan :=
             smooth (currentPan st)
               (constrain (fsub (currentPan st) (panDelta command (firstColon command)))
                  PAN_MIN PAN_MAX),
           currentTilt :=
             smooth (currentTilt st)
               (constrain
                  (fadd (currentTilt st)
                     (tiltDelta command (firstColon command) (secondColon command)))
                  TILT_MIN TILT_MAX)\<rparr>) \<and>
   fsub (Finite c) (Finite d) = fl32 (c - d) \<and>
   fadd (Finite c) (Finite d) = fl32 (c + d) \<and>
   rawTargetPan initial_state (panDelta ''10:10:0'' (firstColon ''10:10:0'')) = Finite 80 \<and>
   rawTargetTilt initial_state
     (tiltDelta ''10:10:0'' (firstColon ''10:10:0'') (secondColon ''10:10:0'')) = Finite 100 \<and>
   fst (parseCommand initial_state ''10:10:0'') =
     \<lparr>currentPan = Finite 87, currentTilt = Finite 93\<rparr>"
proof -
  have 1: "accepted command \<longrightarrow>
      fst (parseCommand st command) =
        st\<lparr>currentPan :=
             smooth (currentPan st)
               (constrain (fsub (currentPan st) (panDelta command (firstColon command)))
                  PAN_MIN PAN_MAX),
           currentTilt :=
             smooth (currentTilt st)
               (constrain
                  (fadd (currentTilt st)
                     (tiltDelta command (firstColon command) (secondColon command)))
                  TILT_MIN TILT_MAX)\<rparr>"
    by (simp add: parseCommand_def apply_command_state targetPan_def targetTilt_def
        rawTargetPan_def rawTargetTilt_def)
  have 2: "fsub (Finite c) (Finite d) = fl32 (c - d)" by (simp add: fsub_def)
  have 3: "fadd (Finite c) (Finite d) = fl32 (c + d)" by simp
  have 4: "fst (parseCommand initial_state ''10:10:0'') =
      \<lparr>currentPan = Finite 87, currentTilt = Finite 93\<rparr>"
    by (simp add: parse_10_10_0 apply_command_state targets_10_10)
       (simp add: initial_state_value smooth_90_80 smooth_90_100)
  show ?thesis using 1 2 3 4 by (simp only: fields_10_10_0 targets_10_10)
qed

text \<open>The command \<^verbatim>\<open>10:10:0\<close> is accepted, and its new angles are the two smoothings.\<close>

theorem C3_witness:
  "accepted ''10:10:0'' \<and>
   fst (parseCommand initial_state ''10:10:0'') =
     initial_state\<lparr>currentPan := smooth (Finite 90) (constrain (fsub (Finite 90) (Finite 10)) 0 180),
                    currentTilt := smooth (Finite 90) (constrain (fadd (Finite 90) (Finite 10)) 0 180)\<rparr>"
  using C3_pan_subtracts_tilt_adds[of "''10:10:0''" initial_state 0 0]
  by (simp add: fields_10_10_0 initial_state_value PAN_MIN_def PAN_MAX_def TILT_MIN_def TILT_MAX_def)

lemma split_20_0_0: "''20:0:0'' = ''20'' @ CHR '':'' # ''0'' @ CHR '':'' # ''0''"
  by simp

lemma parse_20_0_0:
  "parseCommand st ''20:0:0'' = apply_command st (Finite 20) (Finite 0) 0"
  by (simp only: split_20_0_0, subst parseCommand_fields)
     (simp_all add: toFloat_20 toFloat_0 cstr_def toInt_vals)

text \<open>
  Claim C7. The limits are applied to the raw target, and the smoothing to the limited
  one: with \<^verbatim>\<open>currentPan\<close> at 5, the command \<^verbatim>\<open>20:0:0\<close> has the raw pan target
  \<open>5 - 20 = -15\<close>, the limited target 0, and leaves \<^verbatim>\<open>currentPan\<close> at exactly 3.5.
\<close>

theorem C7_clamp_then_smooth:
  "rawTargetPan (st\<lparr>currentPan := Finite 5\<rparr>) (panDelta ''20:0:0'' (firstColon ''20:0:0'')) =
     Finite (- 15) \<and>
   targetPan (st\<lparr>currentPan := Finite 5\<rparr>) (panDelta ''20:0:0'' (firstColon ''20:0:0'')) =
     Finite 0 \<and>
   smooth (Finite 5) (Finite 0) = Finite (7 / 2) \<and>
   currentPan (fst (parseCommand (st\<lparr>currentPan := Finite 5\<rparr>) ''20:0:0'')) = Finite (7 / 2)"
proof -
  have pd: "panDelta ''20:0:0'' (firstColon ''20:0:0'') = Finite 20"
    by (simp add: field_eval toFloat_20)
  have raw: "rawTargetPan (st\<lparr>currentPan := Finite 5\<rparr>) (Finite 20) = Finite (- 15)"
    by (simp add: rawTargetPan_def fsub_def fl32_neg_numeral)
  have tgt: "targetPan (st\<lparr>currentPan := Finite 5\<rparr>) (Finite 20) = Finite 0"
    by (simp add: targetPan_def raw limit_eval)
  have "currentPan (fst (parseCommand (st\<lparr>currentPan := Finite 5\<rparr>) ''20:0:0'')) = Finite (7 / 2)"
    by (simp add: parse_20_0_0 apply_command_state tgt smooth_5_0)
  then show ?thesis by (simp only: pd raw tgt smooth_5_0)
qed

text \<open>
  Claim C9. Two lines with the same text up to and including the second colon leave the
  same angles and write the same two pulse widths, whatever follows the second colon
  in each; the two runs write the same number of values, and only the level written to
  the laser pin can differ.
\<close>

theorem C9_laser_field_does_not_move_axes:
  assumes "CHR '':'' \<notin> set a" "CHR '':'' \<notin> set b"
  shows "fst (parseCommand st (a @ CHR '':'' # b @ CHR '':'' # r1)) =
           fst (parseCommand st (a @ CHR '':'' # b @ CHR '':'' # r2)) \<and>
         take 2 (snd (parseCommand st (a @ CHR '':'' # b @ CHR '':'' # r1))) =
           take 2 (snd (parseCommand st (a @ CHR '':'' # b @ CHR '':'' # r2))) \<and>
         length (snd (parseCommand st (a @ CHR '':'' # b @ CHR '':'' # r1))) =
           length (snd (parseCommand st (a @ CHR '':'' # b @ CHR '':'' # r2))) \<and>
         (accepted (a @ CHR '':'' # b @ CHR '':'' # r1) \<longleftrightarrow>
            accepted (a @ CHR '':'' # b @ CHR '':'' # r2))"
  by (simp add: parseCommand_fields[OF assms] accepted_fields[OF assms]
      apply_command_state apply_command_writes)

text \<open>The lines \<^verbatim>\<open>10:10:0\<close> and \<^verbatim>\<open>10:10:1\<close>: same angles, same pulse widths, other level.\<close>

theorem C9_witness:
  "fst (parseCommand initial_state ''10:10:0'') = fst (parseCommand initial_state ''10:10:1'') \<and>
   take 2 (snd (parseCommand initial_state ''10:10:0'')) =
     take 2 (snd (parseCommand initial_state ''10:10:1'')) \<and>
   accepted ''10:10:0'' \<and> accepted ''10:10:1'' \<and>
   snd (parseCommand initial_state ''10:10:0'') ! 2 = DigitalWrite LASER_PIN False \<and>
   snd (parseCommand initial_state ''10:10:1'') ! 2 = DigitalWrite LASER_PIN True"
proof -
  have a: "accepted ''10:10:0''" "accepted ''10:10:1''" by (simp_all add: field_eval)
  have l: "laser ''10:10:0'' (secondColon ''10:10:0'') = 0"
    "laser ''10:10:1'' (secondColon ''10:10:1'') = 1"
    by (simp_all add: field_eval toInt_vals)
  have g: "snd (parseCommand initial_state ''10:10:0'') ! 2 = DigitalWrite LASER_PIN False"
    "snd (parseCommand initial_state ''10:10:1'') ! 2 = DigitalWrite LASER_PIN True"
    using a by (simp_all add: parseCommand_def apply_command_writes l)
  from C9_laser_field_does_not_move_axes[of "''10''" "''10''" initial_state "''0''" "''1''"]
  show ?thesis using a g by simp
qed

section \<open>Converting a field\<close>

lemma ucast_down_of_nat: "(ucast (of_nat n :: 32 word) :: 16 word) = of_nat n"
proof -
  have "(ucast (of_nat n :: 32 word) :: 16 word) = of_nat (unat (of_nat n :: 32 word))"
    by (simp only: of_nat_unat)
  also have "\<dots> = of_nat (n mod 2 ^ 32)" by (simp add: unat_of_nat)
  also have "\<dots> = (of_nat n :: 16 word)"
    by (simp add: word_of_nat_eq_iff take_bit_eq_mod mod_mod_cancel)
  finally show ?thesis .
qed

lemma foldl_of_nat:
  "foldl (\<lambda>a c. 10 * a + of_nat (digit_val c)) (of_nat n :: 32 word) ds =
     of_nat (foldl (\<lambda>a c. 10 * a + digit_val c) n ds)"
proof (induction ds arbitrary: n)
  case Nil
  show ?case by simp
next
  case (Cons d ds)
  have "10 * (of_nat n :: 32 word) + of_nat (digit_val d) = of_nat (10 * n + digit_val d)" by simp
  then show ?case using Cons[of "10 * n + digit_val d"] by (simp del: of_nat_add of_nat_mult)
qed

lemma isdigit_plain:
  assumes "isdigit c"
  shows "\<not> isspace c" "c \<noteq> CHR ''-''" "c \<noteq> CHR ''+''" "c \<noteq> CHR 0x00"
  using assms by (auto simp: isdigit_def isspace_def)

lemma takeWhile_prefix:
  "\<forall>x \<in> set xs. P x \<Longrightarrow> ys = [] \<or> \<not> P (hd ys) \<Longrightarrow> takeWhile P (xs @ ys) = xs"
  by (cases ys) (simp_all add: takeWhile_append2)

lemma atol_digits_prefix:
  assumes "ds \<noteq> []" "\<forall>c \<in> set ds. isdigit c" "rest = [] \<or> \<not> isdigit (hd rest)"
  shows "atol (ds @ rest) = of_nat (digits_val ds)"
proof -
  from assms(1) obtain d ds' where ds: "ds = d # ds'" by (cases ds) auto
  with assms(2) have d: "isdigit d" by simp
  have 1: "dropWhile isspace (ds @ rest) = ds @ rest"
    using isdigit_plain(1)[OF d] by (simp add: ds)
  have 2: "take_sign (ds @ rest) = (False, ds @ rest)"
    using isdigit_plain(2,3)[OF d] by (simp add: ds)
  have 3: "takeWhile isdigit (ds @ rest) = ds" using assms(2,3) by (rule takeWhile_prefix)
  have "foldl (\<lambda>a c. 10 * a + of_nat (digit_val c)) (of_nat 0 :: 32 word) ds = of_nat (digits_val ds)"
    unfolding digits_val_def by (rule foldl_of_nat)
  then show ?thesis by (simp add: atol_def 1 2 3)
qed

lemma cstr_digits_prefix:
  assumes "\<forall>c \<in> set ds. isdigit c" "rest = [] \<or> \<not> isdigit (hd rest)"
  shows "\<exists>rest'. cstr (ds @ rest) = ds @ rest' \<and> (rest' = [] \<or> \<not> isdigit (hd rest'))"
proof -
  have "\<forall>c \<in> set ds. c \<noteq> CHR 0x00" using assms(1) isdigit_plain(4) by blast
  then have "cstr (ds @ rest) = ds @ cstr rest" by (simp add: cstr_def takeWhile_append2)
  moreover have "cstr rest = [] \<or> \<not> isdigit (hd (cstr rest))"
    using assms(2) by (cases rest) (auto simp: cstr_def)
  ultimately show ?thesis by blast
qed

lemma laser_digits_prefix:
  assumes "ds \<noteq> []" "\<forall>c \<in> set ds. isdigit c" "rest = [] \<or> \<not> isdigit (hd rest)"
  shows "(ucast (toInt (cstr (ds @ rest))) :: 16 word) = of_nat (digits_val ds)"
proof -
  from cstr_digits_prefix[OF assms(2,3)] obtain rest' where
    r: "cstr (ds @ rest) = ds @ rest'" "rest' = [] \<or> \<not> isdigit (hd rest')" by blast
  show ?thesis
    by (simp only: r(1) toInt_def atol_digits_prefix[OF assms(1,2) r(2)] ucast_down_of_nat)
qed

lemma toInt_not_integer: "\<not> integer_text s \<Longrightarrow> toInt s = 0"
  by (cases "snd (take_sign (dropWhile isspace s))")
     (auto simp: integer_text_def toInt_def atol_def Let_def split: prod.splits)

lemma toFloat_not_numeric: "\<not> numeric_text s \<Longrightarrow> \<not> special_text s \<Longrightarrow> toFloat s = Finite 0"
proof -
  assume n: "\<not> numeric_text s" and sp: "\<not> special_text s"
  obtain neg s2 where ts: "take_sign (dropWhile isspace s) = (neg, s2)" by (cases "take_sign (dropWhile isspace s)")
  from sp ts have sp': "\<not> starts_with_ci ''inf'' s2" "\<not> starts_with_ci ''nan'' s2"
    by (simp_all add: special_text_def)
  have ip: "takeWhile isdigit s2 = []" and r1: "dropWhile isdigit s2 = s2"
    using n ts by (cases s2; simp add: numeric_text_def)+
  have fp: "(case s2 of [] \<Rightarrow> False | c # cs \<Rightarrow> c = CHR ''.'') \<Longrightarrow> takeWhile isdigit (tl s2) = []"
    using n ts by (cases s2; cases "tl s2") (auto simp: numeric_text_def)
  show ?thesis
    using fp by (simp add: toFloat_def strtod_def ts sp' ip r1 Let_def)
qed

section \<open>Fields: extra colons, empty fields, text that is no number\<close>

lemma toFloat_1: "toFloat ''1'' = Finite 1"
  by (simp add: strtod_eval fl32_1)

lemma toFloat_2: "toFloat ''2'' = Finite 2"
  by (simp add: strtod_eval fl32_numeral)

lemma parse_1_2_3_4:
  "parseCommand st ''1:2:3:4'' = apply_command st (Finite 1) (Finite 2) 3"
proof -
  have split: "''1:2:3:4'' = ''1'' @ CHR '':'' # ''2'' @ CHR '':'' # ''3:4''" by simp
  show ?thesis
    by (simp only: split, subst parseCommand_fields) (simp_all add: toFloat_1 toFloat_2 cstr_def toInt_vals)
qed

lemma parse_1__0:
  "parseCommand st ''1::0'' = apply_command st (Finite 1) (Finite 0) 0"
proof -
  have split: "''1::0'' = ''1'' @ CHR '':'' # [] @ CHR '':'' # ''0''" by simp
  show ?thesis
    by (simp only: split, subst parseCommand_fields) (simp_all add: toFloat_1 toFloat_empty cstr_def toInt_vals)
qed

lemma parse_1_2_:
  "parseCommand st ''1:2:'' = apply_command st (Finite 1) (Finite 2) 0"
proof -
  have split: "''1:2:'' = ''1'' @ CHR '':'' # ''2'' @ CHR '':'' # []" by simp
  show ?thesis
    by (simp only: split, subst parseCommand_fields) (simp_all add: toFloat_1 toFloat_2 cstr_def toInt_vals)
qed

lemma smooth_90_89: "smooth (Finite 90) (Finite 89) = Finite (5878579 / 65536)"
proof (rule smooth_eval)
  show "rnd (89 - 90) = - 1" using rnd_int[of "- 1"] by simp
  show "rnd (- 1 * (5033165 / 16777216)) = - (5033165 / 16777216)"
    by (subst rnd_eval[where k = 124]) (simp_all add: round_eval)
  show "rnd (90 + - (5033165 / 16777216)) = 5878579 / 65536"
    by (subst rnd_eval[where k = 132]) (simp_all add: round_eval)
qed simp_all

text \<open>
  Claim C10. Only the first two colons of a line count. A line \<open>a:b:r\<close> whose first
  field \<open>a\<close> is not empty, \<open>a\<close> and \<open>b\<close> holding no colon (and no NUL byte), is
  accepted whatever \<open>r\<close> holds, further colons included; the three fields are converted
  from \<open>a\<close>, \<open>b\<close> and the whole of \<open>r\<close>, and the flag is the number written by the
  digits \<open>r\<close> starts with. So \<^verbatim>\<open>1:2:3:4\<close> is applied with flag 3 and sets the pin high,
  and the empty fields of \<^verbatim>\<open>1::0\<close> and \<^verbatim>\<open>1:2:\<close> convert to zero and the commands are
  applied.
\<close>

theorem C10_first_two_colons_split_the_line:
  "(CHR '':'' \<notin> set a \<and> a \<noteq> [] \<and> CHR 0x00 \<notin> set a \<and> CHR '':'' \<notin> set b \<and> CHR 0x00 \<notin> set b \<longrightarrow>
      accepted (a @ CHR '':'' # b @ CHR '':'' # r) \<and>
      parseCommand st (a @ CHR '':'' # b @ CHR '':'' # r) =
        apply_command st (toFloat a) (toFloat b) (ucast (toInt (cstr r)))) \<and>
   (ds \<noteq> [] \<and> (\<forall>c \<in> set ds. isdigit c) \<and> (rest = [] \<or> \<not> isdigit (hd rest)) \<longrightarrow>
      (ucast (toInt (cstr (ds @ rest))) :: 16 word) = of_nat (digits_val ds)) \<and>
   accepted ''1:2:3:4'' \<and>
   parseCommand st ''1:2:3:4'' = apply_command st (Finite 1) (Finite 2) 3 \<and>
   snd (parseCommand st ''1:2:3:4'') ! 2 = DigitalWrite LASER_PIN True \<and>
   toFloat [] = Finite 0 \<and> toInt [] = 0 \<and>
   accepted ''1::0'' \<and>
   parseCommand st ''1::0'' = apply_command st (Finite 1) (Finite 0) 0 \<and>
   fst (parseCommand initial_state ''1::0'') =
     \<lparr>currentPan = Finite (5878579 / 65536), currentTilt = Finite 90\<rparr> \<and>
   accepted ''1:2:'' \<and>
   parseCommand st ''1:2:'' = apply_command st (Finite 1) (Finite 2) 0 \<and>
   snd (parseCommand st ''1:2:'') ! 2 = DigitalWrite LASER_PIN False"
proof -
  have 1: "CHR '':'' \<notin> set a \<and> a \<noteq> [] \<and> CHR 0x00 \<notin> set a \<and> CHR '':'' \<notin> set b \<and> CHR 0x00 \<notin> set b \<longrightarrow>
      accepted (a @ CHR '':'' # b @ CHR '':'' # r) \<and>
      parseCommand st (a @ CHR '':'' # b @ CHR '':'' # r) =
        apply_command st (toFloat a) (toFloat b) (ucast (toInt (cstr r)))"
    by (simp add: parseCommand_fields accepted_fields)
  have 2: "ds \<noteq> [] \<and> (\<forall>c \<in> set ds. isdigit c) \<and> (rest = [] \<or> \<not> isdigit (hd rest)) \<longrightarrow>
      (ucast (toInt (cstr (ds @ rest))) :: 16 word) = of_nat (digits_val ds)"
    using laser_digits_prefix[of ds rest] by blast
  have 3: "accepted ''1:2:3:4''" "accepted ''1::0''" "accepted ''1:2:''"
    by (simp_all add: field_eval)
  have 4: "snd (parseCommand st ''1:2:3:4'') ! 2 = DigitalWrite LASER_PIN True"
    "snd (parseCommand st ''1:2:'') ! 2 = DigitalWrite LASER_PIN False"
    by (simp_all add: parse_1_2_3_4 parse_1_2_ apply_command_writes)
  have t: "targetPan initial_state (Finite 1) = Finite 89" "targetTilt initial_state (Finite 0) = Finite 90"
    by (simp_all add: targetPan_def targetTilt_def rawTargetPan_def rawTargetTilt_def
        initial_state_value fsub_def fl32_numeral limit_eval)
  have 5: "fst (parseCommand initial_state ''1::0'') =
      \<lparr>currentPan = Finite (5878579 / 65536), currentTilt = Finite 90\<rparr>"
    by (simp add: parse_1__0 apply_command_state t)
       (simp add: initial_state_value smooth_90_89 smooth_90_90)
  show ?thesis
    using 1 2 3 4 5 by (simp only: parse_1_2_3_4 parse_1__0 parse_1_2_ toFloat_empty toInt_vals)
qed

text \<open>The line \<^verbatim>\<open>7:8:12:x\<close> is such a line, and its flag is 12.\<close>

theorem C10_witness:
  "accepted ''7:8:12:x'' \<and>
   parseCommand initial_state ''7:8:12:x'' =
     apply_command initial_state (toFloat ''7'') (toFloat ''8'') (ucast (toInt (cstr ''12:x''))) \<and>
   (ucast (toInt (cstr ''12:x'')) :: 16 word) = 12"
  using C10_first_two_colons_split_the_line
    [where a = "''7''" and b = "''8''" and r = "''12:x''" and st = initial_state
       and ds = "''12''" and rest = "'':x''"]
  by (simp add: isdigit_def digits_val_def digit_val_def)

lemma smooth_same:
  assumes "is_float32 c" "\<bar>c\<bar> \<le> 2 ^ 126"
  shows "smooth (Finite c) (Finite c) = Finite c"
proof -
  note sm = smooth_Finite[OF assms assms]
  from sm(3,4) have "rnd (c + rnd (rnd (c - c) * (5033165 / 16777216))) = c" by simp
  with sm(1) show ?thesis by simp
qed

lemma axis_unmoved_by_zero:
  assumes "angle_ok f 0 180"
  shows "smooth f (constrain (fsub f (Finite 0)) 0 180) = f"
    and "smooth f (constrain (fadd f (Finite 0)) 0 180) = f"
proof -
  from assms obtain c where c: "f = Finite c" "is_float32 c" "0 \<le> c" "c \<le> 180"
    by (elim angle_okD) simp
  have t: "constrain (fsub (Finite c) (Finite 0)) 0 180 = Finite c"
    "constrain (fadd (Finite c) (Finite 0)) 0 180 = Finite c"
    using c by (simp_all add: fsub_def fl32_float limit_eval)
  have "smooth (Finite c) (Finite c) = Finite c" using c by (intro smooth_same) simp_all
  then show "smooth f (constrain (fsub f (Finite 0)) 0 180) = f"
    and "smooth f (constrain (fadd f (Finite 0)) 0 180) = f"
    by (simp_all only: c(1) t)
qed

lemma parse_abc_2_1:
  "parseCommand st ''abc:2.0:1'' = apply_command st (Finite 0) (Finite 2) 1"
proof -
  have split: "''abc:2.0:1'' = ''abc'' @ CHR '':'' # ''2.0'' @ CHR '':'' # ''1''" by simp
  show ?thesis
    by (simp only: split, subst parseCommand_fields)
       (simp_all add: toFloat_abc toFloat_2_0 cstr_def toInt_vals)
qed

lemma fields_abc_2_1:
  "accepted ''abc:2.0:1''"
  "panDelta ''abc:2.0:1'' (firstColon ''abc:2.0:1'') = Finite 0"
  "tiltDelta ''abc:2.0:1'' (firstColon ''abc:2.0:1'') (secondColon ''abc:2.0:1'') = Finite 2"
  "laser ''abc:2.0:1'' (secondColon ''abc:2.0:1'') = 1"
  by (simp_all add: field_eval toFloat_abc toFloat_2_0 toInt_vals)

text \<open>
  Claim C6, as the code has it. In an accepted line each field is converted on its own
  and the command is applied with the three results. A delta field converts to 0.0 when
  its text, after white space and an optional sign, starts neither a decimal number nor
  one of the words \<^verbatim>\<open>inf\<close>, \<^verbatim>\<open>infinity\<close>, \<^verbatim>\<open>nan\<close> (in any case); a flag field
  converts to 0 when its text does not start an integer. The line \<^verbatim>\<open>abc:2.0:1\<close> is
  applied with pan delta 0, tilt delta 2 and flag 1: while the limits hold the pan angle
  does not move, the tilt target is \<open>currentTilt + 2\<close>, and the pin is set high.
\<close>

theorem C6_field_that_starts_no_number_is_zero:
  "(\<not> numeric_text f \<and> \<not> special_text f \<longrightarrow> toFloat f = Finite 0) \<and>
   (\<not> integer_text g \<longrightarrow> toInt g = 0) \<and>
   (CHR '':'' \<notin> set a \<and> a \<noteq> [] \<and> CHR 0x00 \<notin> set a \<and> CHR '':'' \<notin> set b \<and> CHR 0x00 \<notin> set b \<longrightarrow>
      parseCommand st (a @ CHR '':'' # b @ CHR '':'' # r) =
        apply_command st (toFloat a) (toFloat b) (ucast (toInt (cstr r)))) \<and>
   accepted ''abc:2.0:1'' \<and>
   panDelta ''abc:2.0:1'' (firstColon ''abc:2.0:1'') = Finite 0 \<and>
   tiltDelta ''abc:2.0:1'' (firstColon ''abc:2.0:1'') (secondColon ''abc:2.0:1'') = Finite 2 \<and>
   laser ''abc:2.0:1'' (secondColon ''abc:2.0:1'') = 1 \<and>
   parseCommand st ''abc:2.0:1'' = apply_command st (Finite 0) (Finite 2) 1 \<and>
   (limits_hold st \<longrightarrow> currentPan (fst (parseCommand st ''abc:2.0:1'')) = currentPan st) \<and>
   rawTargetTilt st (Finite 2) = fadd (currentTilt st) (Finite 2) \<and>
   snd (parseCommand st ''abc:2.0:1'') ! 2 = DigitalWrite LASER_PIN True"
proof -
  have 1: "\<not> numeric_text f \<and> \<not> special_text f \<longrightarrow> toFloat f = Finite 0"
    by (simp add: toFloat_not_numeric)
  have 2: "\<not> integer_text g \<longrightarrow> toInt g = 0" by (simp add: toInt_not_integer)
  have 3: "CHR '':'' \<notin> set a \<and> a \<noteq> [] \<and> CHR 0x00 \<notin> set a \<and> CHR '':'' \<notin> set b \<and> CHR 0x00 \<notin> set b \<longrightarrow>
      parseCommand st (a @ CHR '':'' # b @ CHR '':'' # r) =
        apply_command st (toFloat a) (toFloat b) (ucast (toInt (cstr r)))"
    by (simp add: parseCommand_fields)
  have 4: "limits_hold st \<longrightarrow> currentPan (fst (parseCommand st ''abc:2.0:1'')) = currentPan st"
    by (simp add: parse_abc_2_1 apply_command_state targetPan_def rawTargetPan_def
        limits_hold_def PAN_MIN_def PAN_MAX_def axis_unmoved_by_zero)
  have 5: "rawTargetTilt st (Finite 2) = fadd (currentTilt st) (Finite 2)"
    by (simp add: rawTargetTilt_def)
  have 6: "snd (parseCommand st ''abc:2.0:1'') ! 2 = DigitalWrite LASER_PIN True"
    by (simp add: parse_abc_2_1 apply_command_writes)
  show ?thesis using 1 2 3 4 5 6 by (simp only: fields_abc_2_1 parse_abc_2_1)
qed

text \<open>
  The field \<^verbatim>\<open>abc\<close> starts no number and none of the words; from the initial state
  the line \<^verbatim>\<open>abc:2.0:1\<close> leaves the pan angle where it is.
\<close>

theorem C6_witness:
  "\<not> numeric_text ''abc'' \<and> \<not> special_text ''abc'' \<and> toFloat ''abc'' = Finite 0 \<and>
   \<not> integer_text ''abc'' \<and> toInt ''abc'' = 0 \<and>
   parseCommand initial_state ''abc:2.0:1'' =
     apply_command initial_state (toFloat ''abc'') (toFloat ''2.0'') (ucast (toInt (cstr ''1''))) \<and>
   limits_hold initial_state \<and>
   currentPan (fst (parseCommand initial_state ''abc:2.0:1'')) = currentPan initial_state"
proof -
  have s: "''abc'' @ CHR '':'' # ''2.0'' @ CHR '':'' # ''1'' = ''abc:2.0:1''" by simp
  note t = C6_field_that_starts_no_number_is_zero
    [where f = "''abc''" and g = "''abc''" and a = "''abc''" and b = "''2.0''" and r = "''1''"
       and st = initial_state, unfolded s]
  have h: "\<not> numeric_text ''abc''" "\<not> special_text ''abc''" "\<not> integer_text ''abc''"
    by (simp_all add: numeric_text_def special_text_def integer_text_def isspace_def isdigit_def
        starts_with_ci_def tolower_def)
  have c: "CHR '':'' \<notin> set ''abc'' \<and> ''abc'' \<noteq> [] \<and> CHR 0x00 \<notin> set ''abc'' \<and>
      CHR '':'' \<notin> set ''2.0'' \<and> CHR 0x00 \<notin> set ''2.0''" by simp
  from t h c limits_hold_initial show ?thesis by blast
qed

text \<open>
  Claim C6 as the specification states it, for every text that is not numeric, fails:
  the field \<^verbatim>\<open>nan\<close> is no decimal number and converts to a NaN, not to zero, and
  \<^verbatim>\<open>inf\<close> converts to an infinity; the line \<^verbatim>\<open>nan:2.0:1\<close> is accepted with a pan
  delta that is a NaN.
\<close>

theorem C6_counterexample:
  "\<not> numeric_text ''nan'' \<and> toFloat ''nan'' = NaN \<and> toFloat ''nan'' \<noteq> Finite 0 \<and>
   \<not> numeric_text ''inf'' \<and> toFloat ''inf'' = PInf \<and>
   accepted ''nan:2.0:1'' \<and>
   panDelta ''nan:2.0:1'' (firstColon ''nan:2.0:1'') = NaN"
  by (simp add: numeric_text_def isspace_def isdigit_def strtod_eval field_eval)

section \<open>The pulse width\<close>

lemma fl32_5_2: "fl32 (5 / 2) = Finite (5 / 2)"
proof -
  have "rnd (5 / 2) = 5 / 2" by (subst rnd_eval[where k = 127]) (simp_all add: round_eval)
  then show ?thesis by (simp add: fl32_Finite)
qed

lemma fl32_175_2: "fl32 (175 / 2) = Finite (175 / 2)"
proof -
  have "rnd (175 / 2) = 175 / 2" by (subst rnd_eval[where k = 132]) (simp_all add: round_eval)
  then show ?thesis by (simp add: fl32_Finite)
qed

lemma toFloat_2_5: "toFloat ''2.5'' = Finite (5 / 2)"
  by (simp add: strtod_eval fl32_5_2)

lemma parse_2_5_0_0:
  "parseCommand st ''2.5:0:0'' = apply_command st (Finite (5 / 2)) (Finite 0) 0"
proof -
  have split: "''2.5:0:0'' = ''2.5'' @ CHR '':'' # ''0'' @ CHR '':'' # ''0''" by simp
  show ?thesis
    by (simp only: split, subst parseCommand_fields)
       (simp_all add: toFloat_2_5 toFloat_0 cstr_def toInt_vals)
qed

lemma smooth_90_87_5: "smooth (Finite 90) (Finite (175 / 2)) = Finite (357 / 4)"
proof (rule smooth_eval)
  show "rnd (175 / 2 - 90) = - (5 / 2)"
    by (subst rnd_eval[where k = 127]) (simp_all add: round_eval)
  show "rnd (- (5 / 2) * (5033165 / 16777216)) = - (3 / 4)"
    by (subst rnd_eval[where k = 125]) (simp_all add: round_eval)
  show "rnd (90 + - (3 / 4)) = 357 / 4"
    by (subst rnd_eval[where k = 132]) (simp_all add: round_eval)
qed simp_all

lemma state_2_5_0_0:
  "fst (parseCommand initial_state ''2.5:0:0'') =
     \<lparr>currentPan = Finite (357 / 4), currentTilt = Finite 90\<rparr>"
proof -
  have t: "targetPan initial_state (Finite (5 / 2)) = Finite (175 / 2)"
    "targetTilt initial_state (Finite 0) = Finite 90"
    by (simp_all add: targetPan_def targetTilt_def rawTargetPan_def rawTargetTilt_def
        initial_state_value fsub_def fl32_numeral fl32_175_2 limit_eval)
  show ?thesis
    by (simp add: parse_2_5_0_0 apply_command_state t)
       (simp add: initial_state_value smooth_90_87_5 smooth_90_90)
qed

lemma linear_drive_floor:
  assumes "0 \<le> p"
  shows "linear_drive p 0 180 = 700 + \<lfloor>10 * p\<rfloor>"
proof -
  have "700 + (p - 0) * (2500 - 700) / of_int (180 - 0) = of_int 700 + 10 * p" by simp
  moreover have "0 \<le> of_int 700 + 10 * p" using assms by simp
  ultimately have "linear_drive p 0 180 = \<lfloor>of_int 700 + 10 * p\<rfloor>"
    by (simp add: linear_drive_def truncate_rat_def)
  also have "\<dots> = 700 + \<lfloor>10 * p\<rfloor>" by linarith
  finally show ?thesis .
qed

lemma ten_floor_bounds: "10 * \<lfloor>p\<rfloor> \<le> \<lfloor>10 * p\<rfloor> \<and> \<lfloor>10 * p\<rfloor> < 10 * \<lfloor>p\<rfloor> + 10" for p :: rat
proof -
  have a: "of_int \<lfloor>p\<rfloor> \<le> p" "p < of_int \<lfloor>p\<rfloor> + 1" by linarith+
  have "of_int (10 * \<lfloor>p\<rfloor>) \<le> 10 * p" using a(1) by simp
  then have 1: "10 * \<lfloor>p\<rfloor> \<le> \<lfloor>10 * p\<rfloor>" by (simp only: le_floor_iff)
  have "10 * p < of_int (10 * \<lfloor>p\<rfloor> + 10)" using a(2) by simp
  then have 2: "\<lfloor>10 * p\<rfloor> < 10 * \<lfloor>p\<rfloor> + 10" by (simp only: floor_less_iff)
  from 1 2 show ?thesis ..
qed

text \<open>
  Claim C4, as the code has it. \<^verbatim>\<open>map\<close> works on \<^verbatim>\<open>long\<close>: the angle loses its
  fraction before it is mapped. For an accepted command whose new angle \<open>p\<close> is a number
  within \<open>[0, 180]\<close>, the pulse width written is \<open>700 + 10 * \<lfloor>p\<rfloor>\<close>: 700 at 0, 2500 at
  180, linear in the whole degrees of the angle; it is the linear map of the angle,
  truncated, when the angle is a whole number, and otherwise up to 9 below it.
\<close>

theorem C4_pulse_width_of_whole_degrees:
  "(accepted command \<and> currentPan (fst (parseCommand st command)) = Finite p \<and> 0 \<le> p \<and> p \<le> 180 \<longrightarrow>
      snd (parseCommand st command) ! 0 = WriteMicroseconds panServo (Some (700 + 10 * \<lfloor>p\<rfloor>))) \<and>
   (accepted command \<and> currentTilt (fst (parseCommand st command)) = Finite t \<and> 0 \<le> t \<and> t \<le> 180 \<longrightarrow>
      snd (parseCommand st command) ! 1 = WriteMicroseconds tiltServo (Some (700 + 10 * \<lfloor>t\<rfloor>))) \<and>
   drive (Finite 0) PAN_MIN PAN_MAX = Some 700 \<and>
   drive (Finite 180) PAN_MIN PAN_MAX = Some 2500 \<and>
   (0 \<le> n \<longrightarrow> linear_drive (of_int n) 0 180 = 700 + 10 * n) \<and>
   (0 \<le> p \<longrightarrow> 700 + 10 * \<lfloor>p\<rfloor> \<le> linear_drive p 0 180 \<and>
               linear_drive p 0 180 < 700 + 10 * \<lfloor>p\<rfloor> + 10)"
proof -
  have 1: "accepted command \<and> currentPan (fst (parseCommand st command)) = Finite p \<and> 0 \<le> p \<and> p \<le> 180 \<longrightarrow>
      snd (parseCommand st command) ! 0 = WriteMicroseconds panServo (Some (700 + 10 * \<lfloor>p\<rfloor>))"
    by (auto simp: parseCommand_def apply_command_def Let_def PAN_MIN_def PAN_MAX_def drive_in_limits)
  have 2: "accepted command \<and> currentTilt (fst (parseCommand st command)) = Finite t \<and> 0 \<le> t \<and> t \<le> 180 \<longrightarrow>
      snd (parseCommand st command) ! 1 = WriteMicroseconds tiltServo (Some (700 + 10 * \<lfloor>t\<rfloor>))"
    by (auto simp: parseCommand_def apply_command_def Let_def TILT_MIN_def TILT_MAX_def drive_in_limits)
  have 3: "drive (Finite 0) PAN_MIN PAN_MAX = Some 700" "drive (Finite 180) PAN_MIN PAN_MAX = Some 2500"
    using drive_in_limits[of 0] drive_in_limits[of 180] by (simp_all add: PAN_MIN_def PAN_MAX_def)
  have 4: "0 \<le> n \<longrightarrow> linear_drive (of_int n) 0 180 = 700 + 10 * n"
  proof
    assume "0 \<le> n"
    then have "linear_drive (of_int n) 0 180 = 700 + \<lfloor>10 * (of_int n :: rat)\<rfloor>"
      by (intro linear_drive_floor) simp
    also have "10 * (of_int n :: rat) = of_int (10 * n)" by simp
    finally show "linear_drive (of_int n) 0 180 = 700 + 10 * n" by (simp only: floor_of_int)
  qed
  have 5: "0 \<le> p \<longrightarrow> 700 + 10 * \<lfloor>p\<rfloor> \<le> linear_drive p 0 180 \<and>
               linear_drive p 0 180 < 700 + 10 * \<lfloor>p\<rfloor> + 10"
    using ten_floor_bounds[of p] by (simp add: linear_drive_floor)
  from 1 2 3 4 5 show ?thesis by blast
qed

text \<open>
  With the pan angle at 0 and the tilt angle at 180, the command \<^verbatim>\<open>0:0:0\<close> is accepted,
  leaves both where they are, and writes 700 and 2500.
\<close>

theorem C4_witness:
  "accepted ''0:0:0'' \<and>
   fst (parseCommand \<lparr>currentPan = Finite 0, currentTilt = Finite 180\<rparr> ''0:0:0'') =
     \<lparr>currentPan = Finite 0, currentTilt = Finite 180\<rparr> \<and>
   snd (parseCommand \<lparr>currentPan = Finite 0, currentTilt = Finite 180\<rparr> ''0:0:0'') ! 0 =
     WriteMicroseconds panServo (Some 700) \<and>
   snd (parseCommand \<lparr>currentPan = Finite 0, currentTilt = Finite 180\<rparr> ''0:0:0'') ! 1 =
     WriteMicroseconds tiltServo (Some 2500) \<and>
   linear_drive (of_int 90) 0 180 = 1600 \<and>
   linear_drive (357 / 4) 0 180 < 1600"
proof -
  let ?st = "\<lparr>currentPan = Finite 0, currentTilt = Finite 180\<rparr>"
  have acc: "accepted ''0:0:0''" by (simp add: field_eval)
  have split: "''0:0:0'' = ''0'' @ CHR '':'' # ''0'' @ CHR '':'' # ''0''" by simp
  have p: "parseCommand ?st ''0:0:0'' = apply_command ?st (Finite 0) (Finite 0) 0"
    by (simp only: split, subst parseCommand_fields) (simp_all add: toFloat_0 cstr_def toInt_vals)
  have ok: "angle_ok (Finite 0) 0 180" "angle_ok (Finite 180) 0 180"
    using is_float32_int[of 0] is_float32_int[of 180] by simp_all
  have st: "fst (parseCommand ?st ''0:0:0'') = ?st"
    using axis_unmoved_by_zero[OF ok(1)] axis_unmoved_by_zero[OF ok(2)]
    by (simp add: p apply_command_state targetPan_def targetTilt_def rawTargetPan_def
        rawTargetTilt_def PAN_MIN_def PAN_MAX_def TILT_MIN_def TILT_MAX_def)
  note t = C4_pulse_width_of_whole_degrees
    [where command = "''0:0:0''" and st = ?st and p = 0 and t = 180 and n = 90]
  note u = C4_pulse_width_of_whole_degrees
    [where command = "''0:0:0''" and st = ?st and p = "357 / 4" and t = 180 and n = 90]
  have f: "\<lfloor>357 / 4 :: rat\<rfloor> = 89" by (simp add: floor_rat_numeral)
  from t u acc show ?thesis by (simp add: st f)
qed

text \<open>
  Claim C4 as the specification states it, the linear map of the angle truncated to an
  integer, fails: from the initial state the command \<^verbatim>\<open>2.5:0:0\<close> leaves the pan angle
  at 89.25 and writes 1590 to the pan servo, where the linear map gives 1592.
\<close>

theorem C4_counterexample:
  "accepted ''2.5:0:0'' \<and>
   currentPan (fst (parseCommand initial_state ''2.5:0:0'')) = Finite (357 / 4) \<and>
   snd (parseCommand initial_state ''2.5:0:0'') ! 0 = WriteMicroseconds panServo (Some 1590) \<and>
   linear_drive (357 / 4) PAN_MIN PAN_MAX = 1592"
proof -
  have acc: "accepted ''2.5:0:0''" by (simp add: field_eval)
  have f: "\<lfloor>357 / 4 :: rat\<rfloor> = 89" by (simp add: floor_rat_numeral)
  have d: "drive (Finite (357 / 4)) 0 180 = Some 1590"
    using drive_in_limits[of "357 / 4"] by (simp add: f)
  have w: "snd (parseCommand initial_state ''2.5:0:0'') ! 0 = WriteMicroseconds panServo (Some 1590)"
    using acc state_2_5_0_0
    by (simp add: parseCommand_def apply_command_def Let_def PAN_MIN_def PAN_MAX_def d)
  have l: "linear_drive (357 / 4) PAN_MIN PAN_MAX = 1592"
    by (simp add: linear_drive_def truncate_rat_def PAN_MIN_def PAN_MAX_def floor_rat_numeral)
  from acc w l show ?thesis by (simp add: state_2_5_0_0)
qed

section \<open>A step that is large enough moves the value\<close>

lemma quantum_below_256: "\<bar>c\<bar> < 256 \<Longrightarrow> quantum c \<le> 1 / 2 ^ 16"
proof -
  assume "\<bar>c\<bar> < 256"
  then have "\<bar>c\<bar> < 2 ^ (133 + 24) / 2 ^ 149" by simp
  then have "qexp c \<le> 133" by (rule qexp_le)
  then have "(2::rat) ^ qexp c \<le> 2 ^ 133" by (intro power_increasing) auto
  then have "quantum c \<le> 2 ^ 133 / 2 ^ 149" by (simp add: quantum_qexp divide_right_mono)
  then show ?thesis by simp
qed

text \<open>Anything above the midpoint between a \<^verbatim>\<open>float\<close> and its upper neighbour rounds above it.\<close>

lemma rnd_above_midpoint:
  assumes c: "rnd c = c" and x: "c + quantum c / 2 < x"
  shows "c < rnd x"
proof (cases "quantum x \<le> quantum c")
  case True
  have "x - quantum x / 2 \<le> rnd x" using rnd_near[of x] by linarith
  with True x show ?thesis by linarith
next
  case False
  then have lt: "quantum c < quantum x" by simp
  then have "\<not> \<bar>x\<bar> \<le> \<bar>c\<bar>" using quantum_mono[of x c] by auto
  then have big: "\<bar>c\<bar> < \<bar>x\<bar>" by simp
  have "c < x" using x quantum_pos[of c] by linarith
  with big have x0: "0 \<le> x" by linarith
  from lt have "(2::rat) ^ qexp c < 2 ^ qexp x" by (simp add: quantum_qexp divide_strict_right_mono)
  then have "qexp c < qexp x" by (simp add: power_strict_increasing_iff)
  then have "Suc (qexp c) \<le> qexp x" by simp
  then have "(2::rat) ^ Suc (qexp c) \<le> 2 ^ qexp x" by (intro power_increasing) auto
  then have dbl: "2 * quantum c \<le> quantum x" by (simp add: quantum_qexp divide_right_mono)
  have "1 / 2 ^ 149 \<le> quantum c" by (simp add: quantum_qexp divide_right_mono)
  with lt have "quantum x \<noteq> 1 / 2 ^ 149" by simp
  with quantum_lower[of x] x0 have "of_int (2 ^ 23) * quantum x \<le> x" by (simp add: mult.commute)
  then have ge: "of_int (2 ^ 23) * quantum x \<le> rnd x" by (rule rnd_grid_ge)
  have "c < quantum c * 2 ^ 24" using quantum_upper[of c] by linarith
  also have "\<dots> \<le> of_int (2 ^ 23) * quantum x" using dbl by simp
  finally show ?thesis using ge by linarith
qed

lemma rnd_small_floats: "rnd (1 / 2 ^ 15) = 1 / 2 ^ 15" "rnd (9 / 2 ^ 20) = 9 / 2 ^ 20"
  using rnd_representable[of 1 134] rnd_representable[of 9 129] by simp_all

lemma step_moves_up:
  assumes c: "rnd c = c" "\<bar>c\<bar> < 256" and gap: "1 / 2 ^ 15 \<le> t - c"
  shows "c < rnd (c + rnd (rnd (t - c) * (5033165 / 16777216)))"
proof -
  let ?kf = "5033165 / 16777216 :: rat"
  let ?d = "rnd (t - c)"
  let ?s = "rnd (?d * ?kf)"
  have "rnd (1 / 2 ^ 15) \<le> ?d" using gap by (rule rnd_mono)
  then have d: "1 / 2 ^ 15 \<le> ?d" by (simp only: rnd_small_floats)
  have "9 / 2 ^ 20 \<le> 1 / 2 ^ 15 * ?kf" by simp
  also have "\<dots> \<le> ?d * ?kf" using d by (intro mult_right_mono) simp_all
  finally have "rnd (9 / 2 ^ 20) \<le> ?s" by (rule rnd_mono)
  then have "9 / 2 ^ 20 \<le> ?s" by (simp only: rnd_small_floats)
  moreover have "quantum c / 2 < 9 / 2 ^ 20" using quantum_below_256[OF c(2)] by simp
  ultimately have "c + quantum c / 2 < c + ?s" by linarith
  with c(1) show ?thesis by (rule rnd_above_midpoint)
qed

lemma step_moves_down:
  assumes c: "rnd c = c" "\<bar>c\<bar> < 256" and gap: "1 / 2 ^ 15 \<le> c - t"
  shows "rnd (c + rnd (rnd (t - c) * (5033165 / 16777216))) < c"
proof -
  let ?kf = "5033165 / 16777216 :: rat"
  have c': "rnd (- c) = - c" "\<bar>- c\<bar> < 256" using c by (simp_all add: rnd_minus)
  have gap': "1 / 2 ^ 15 \<le> - t - - c" using gap by simp
  have eq: "rnd (- c + rnd (rnd (- t - - c) * ?kf)) = - rnd (c + rnd (rnd (t - c) * ?kf))"
  proof -
    have "rnd (- t - - c) = - rnd (t - c)" using rnd_minus[of "t - c"] by simp
    then have "rnd (rnd (- t - - c) * ?kf) = - rnd (rnd (t - c) * ?kf)"
      using rnd_minus[of "rnd (t - c) * ?kf"] by simp
    then show ?thesis using rnd_minus[of "c + rnd (rnd (t - c) * ?kf)"] by simp
  qed
  from step_moves_up[OF c' gap'] have "- c < - rnd (c + rnd (rnd (t - c) * ?kf))"
    by (simp only: eq)
  then show ?thesis by simp
qed

section \<open>Repeated smoothing towards one target\<close>

lemma smooth_step:
  assumes "is_float32 c" "\<bar>c\<bar> \<le> 2 ^ 126" "is_float32 t" "\<bar>t\<bar> \<le> 2 ^ 126"
  shows "\<exists>c'. smooth (Finite c) (Finite t) = Finite c' \<and> is_float32 c' \<and>
           min c t \<le> c' \<and> c' \<le> max c t \<and> \<bar>c'\<bar> \<le> 2 ^ 126 \<and>
           \<bar>t - c'\<bar> \<le> \<bar>t - c\<bar> \<and> (c' = c \<or> \<bar>t - c'\<bar> < \<bar>t - c\<bar>) \<and>
           (\<bar>c\<bar> < 256 \<and> 1 / 2 ^ 15 \<le> \<bar>t - c\<bar> \<longrightarrow> \<bar>t - c'\<bar> < \<bar>t - c\<bar>)"
proof -
  let ?r = "rnd (c + rnd (rnd (t - c) * (5033165 / 16777216)))"
  note sm = smooth_Finite[OF assms]
  have rc: "rnd c = c" using assms(1) by (simp add: is_float32_def)
  from sm(3,4) assms(2,4) have b: "\<bar>?r\<bar> \<le> 2 ^ 126" by (simp add: min_def max_def split: if_splits)
  from sm(3,4) have d: "\<bar>t - ?r\<bar> \<le> \<bar>t - c\<bar>" "?r = c \<or> \<bar>t - ?r\<bar> < \<bar>t - c\<bar>"
    by (auto simp: min_def max_def split: if_splits)
  have e: "\<bar>t - ?r\<bar> < \<bar>t - c\<bar>" if small: "\<bar>c\<bar> < 256" and gap: "1 / 2 ^ 15 \<le> \<bar>t - c\<bar>"
  proof -
    from gap consider "1 / 2 ^ 15 \<le> t - c" | "1 / 2 ^ 15 \<le> c - t" by linarith
    then have "?r \<noteq> c"
    proof cases
      case 1
      from step_moves_up[OF rc small 1] show ?thesis by simp
    next
      case 2
      from step_moves_down[OF rc small 2] show ?thesis by simp
    qed
    with d(2) show ?thesis by simp
  qed
  from sm b d e show ?thesis by blast
qed

lemma smooth_repeated:
  assumes "is_float32 c" "\<bar>c\<bar> \<le> 2 ^ 126" "is_float32 t" "\<bar>t\<bar> \<le> 2 ^ 126"
  shows "\<exists>x y. ((\<lambda>f. smooth f (Finite t)) ^^ n) (Finite c) = Finite x \<and>
           ((\<lambda>f. smooth f (Finite t)) ^^ Suc n) (Finite c) = Finite y \<and>
           is_float32 x \<and> \<bar>x\<bar> \<le> 2 ^ 126 \<and> min c t \<le> x \<and> x \<le> max c t \<and>
           min x t \<le> y \<and> y \<le> max x t \<and> \<bar>t - y\<bar> \<le> \<bar>t - x\<bar> \<and>
           (\<bar>x\<bar> < 256 \<and> 1 / 2 ^ 15 \<le> \<bar>t - x\<bar> \<longrightarrow> \<bar>t - y\<bar> < \<bar>t - x\<bar>)"
proof (induction n)
  case 0
  from smooth_step[OF assms] obtain c' where
    "smooth (Finite c) (Finite t) = Finite c'" "min c t \<le> c'" "c' \<le> max c t" "\<bar>t - c'\<bar> \<le> \<bar>t - c\<bar>"
    "\<bar>c\<bar> < 256 \<and> 1 / 2 ^ 15 \<le> \<bar>t - c\<bar> \<longrightarrow> \<bar>t - c'\<bar> < \<bar>t - c\<bar>"
    by blast
  with assms(1,2) show ?case by auto
next
  case (Suc n)
  then obtain x y where xy: "((\<lambda>f. smooth f (Finite t)) ^^ n) (Finite c) = Finite x"
    "((\<lambda>f. smooth f (Finite t)) ^^ Suc n) (Finite c) = Finite y"
    "is_float32 x" "\<bar>x\<bar> \<le> 2 ^ 126" "min c t \<le> x" "x \<le> max c t" "min x t \<le> y" "y \<le> max x t"
    by blast
  from smooth_step[OF xy(3,4) assms(3,4)] xy(1,2) have fy: "is_float32 y" "\<bar>y\<bar> \<le> 2 ^ 126"
    by auto
  from smooth_step[OF fy assms(3,4)] obtain z where
    z: "smooth (Finite y) (Finite t) = Finite z" "min y t \<le> z" "z \<le> max y t" "\<bar>t - z\<bar> \<le> \<bar>t - y\<bar>"
    "\<bar>y\<bar> < 256 \<and> 1 / 2 ^ 15 \<le> \<bar>t - y\<bar> \<longrightarrow> \<bar>t - z\<bar> < \<bar>t - y\<bar>"
    by blast
  have "min c t \<le> y" "y \<le> max c t" using xy(5-8) by (simp_all add: min_def max_def split: if_splits)
  with xy(2) fy z show ?case by auto
qed

lemma is_float32_near_90: "is_float32 (11796481 / 131072)"
proof -
  have "rnd (11796481 / 131072) = 11796481 / 131072"
    by (subst rnd_eval[where k = 132]) (simp_all add: round_eval)
  then show ?thesis by (simp add: is_float32_def)
qed

lemma smooth_stalls: "smooth (Finite 90) (Finite (11796481 / 131072)) = Finite 90"
proof (rule smooth_eval)
  show "rnd (11796481 / 131072 - 90) = 1 / 131072"
    by (subst rnd_eval[where k = 109]) (simp_all add: round_eval)
  show "rnd (1 / 131072 * (5033165 / 16777216)) = 5033165 / 2199023255552"
    by (subst rnd_eval[where k = 107]) (simp_all add: round_eval)
  show "rnd (90 + 5033165 / 2199023255552) = 90"
    by (subst rnd_eval[where k = 132]) (simp_all add: round_eval)
qed simp_all

lemma toFloat_small: "toFloat ''-0.00001'' = Finite (- (2748779 / 274877906944))"
proof -
  have "rnd (- (1 / 100000)) = - (2748779 / 274877906944)"
    by (subst rnd_eval[where k = 109]) (simp_all add: round_eval)
  then have "fl32 (- (1 / 100000)) = Finite (- (2748779 / 274877906944))"
    by (simp add: fl32_Finite)
  then show ?thesis by (simp add: strtod_eval)
qed

lemma target_small: "targetPan initial_state (Finite (- (2748779 / 274877906944))) = Finite (11796481 / 131072)"
proof -
  have "rnd (90 + 2748779 / 274877906944) = 11796481 / 131072"
    by (subst rnd_eval[where k = 132]) (simp_all add: round_eval)
  then have "fl32 (90 + 2748779 / 274877906944) = Finite (11796481 / 131072)"
    by (simp add: fl32_Finite)
  then show ?thesis
    by (simp add: targetPan_def rawTargetPan_def initial_state_value fsub_def limit_eval)
qed

lemma parse_small:
  "parseCommand st ''-0.00001:0:0'' =
     apply_command st (Finite (- (2748779 / 274877906944))) (Finite 0) 0"
proof -
  have split: "''-0.00001:0:0'' = ''-0.00001'' @ CHR '':'' # ''0'' @ CHR '':'' # ''0''" by simp
  show ?thesis
    by (simp only: split, subst parseCommand_fields)
       (simp_all add: toFloat_small toFloat_0 cstr_def toInt_vals)
qed

lemma smooth_stalls_at_128: "smooth (Finite 128) (Finite (8388609 / 65536)) = Finite 128"
proof (rule smooth_eval)
  show "rnd (8388609 / 65536 - 128) = 1 / 65536"
    by (subst rnd_eval[where k = 110]) (simp_all add: round_eval)
  show "rnd (1 / 65536 * (5033165 / 16777216)) = 5033165 / 1099511627776"
    by (subst rnd_eval[where k = 108]) (simp_all add: round_eval)
  show "rnd (128 + 5033165 / 1099511627776) = 128"
    by (subst rnd_eval[where k = 133]) (simp_all add: round_eval)
qed simp_all

text \<open>
  Claim C5, as the code has it. For a current value and a target that are \<^verbatim>\<open>float\<close>
  numbers of magnitude at most \<open>2\<^sup>1\<^sup>2\<^sup>6\<close> (the angles and the clamped targets lie in
  \<open>[0, 180]\<close>), the smoothing step gives a number between the current value and the
  target, both included: it never passes the target, and the distance to the target
  does not grow. The step either leaves the current value where it is or brings it
  strictly closer, and it does bring it strictly closer whenever the current value is
  below 256 in magnitude and at least \<open>2\<^sup>-\<^sup>1\<^sup>5\<close> away from the target. Repeating the
  step with the same target gives values that stay between the first one and the
  target and move monotonically towards it, strictly so while the distance is at least
  \<open>2\<^sup>-\<^sup>1\<^sup>5\<close>. (At the distance \<open>2\<^sup>-\<^sup>1\<^sup>6\<close> the step from 128 is lost:
  \<open>smooth_stalls_at_128\<close>.)
\<close>

theorem C5_smoothing_never_passes_target:
  "is_float32 c \<and> \<bar>c\<bar> \<le> 2 ^ 126 \<and> is_float32 t \<and> \<bar>t\<bar> \<le> 2 ^ 126 \<longrightarrow>
     (\<exists>c'. smooth (Finite c) (Finite t) = Finite c' \<and> is_float32 c' \<and>
        min c t \<le> c' \<and> c' \<le> max c t \<and>
        \<bar>t - c'\<bar> \<le> \<bar>t - c\<bar> \<and> (c' = c \<or> \<bar>t - c'\<bar> < \<bar>t - c\<bar>) \<and>
        (\<bar>c\<bar> < 256 \<and> 1 / 2 ^ 15 \<le> \<bar>t - c\<bar> \<longrightarrow> \<bar>t - c'\<bar> < \<bar>t - c\<bar>)) \<and>
     (\<forall>n. \<exists>x y. ((\<lambda>f. smooth f (Finite t)) ^^ n) (Finite c) = Finite x \<and>
        ((\<lambda>f. smooth f (Finite t)) ^^ Suc n) (Finite c) = Finite y \<and>
        min c t \<le> x \<and> x \<le> max c t \<and>
        min x t \<le> y \<and> y \<le> max x t \<and> \<bar>t - y\<bar> \<le> \<bar>t - x\<bar> \<and>
        (\<bar>x\<bar> < 256 \<and> 1 / 2 ^ 15 \<le> \<bar>t - x\<bar> \<longrightarrow> \<bar>t - y\<bar> < \<bar>t - x\<bar>))"
proof
  assume a: "is_float32 c \<and> \<bar>c\<bar> \<le> 2 ^ 126 \<and> is_float32 t \<and> \<bar>t\<bar> \<le> 2 ^ 126"
  then have h: "is_float32 c" "\<bar>c\<bar> \<le> 2 ^ 126" "is_float32 t" "\<bar>t\<bar> \<le> 2 ^ 126" by simp_all
  have 1: "\<exists>c'. smooth (Finite c) (Finite t) = Finite c' \<and> is_float32 c' \<and>
        min c t \<le> c' \<and> c' \<le> max c t \<and>
        \<bar>t - c'\<bar> \<le> \<bar>t - c\<bar> \<and> (c' = c \<or> \<bar>t - c'\<bar> < \<bar>t - c\<bar>) \<and>
        (\<bar>c\<bar> < 256 \<and> 1 / 2 ^ 15 \<le> \<bar>t - c\<bar> \<longrightarrow> \<bar>t - c'\<bar> < \<bar>t - c\<bar>)"
    using smooth_step[OF h] by blast
  have 2: "\<exists>x y. ((\<lambda>f. smooth f (Finite t)) ^^ n) (Finite c) = Finite x \<and>
        ((\<lambda>f. smooth f (Finite t)) ^^ Suc n) (Finite c) = Finite y \<and>
        min c t \<le> x \<and> x \<le> max c t \<and>
        min x t \<le> y \<and> y \<le> max x t \<and> \<bar>t - y\<bar> \<le> \<bar>t - x\<bar> \<and>
        (\<bar>x\<bar> < 256 \<and> 1 / 2 ^ 15 \<le> \<bar>t - x\<bar> \<longrightarrow> \<bar>t - y\<bar> < \<bar>t - x\<bar>)" for n
    using smooth_repeated[OF h, of n] by blast
  from 1 2 show "(\<exists>c'. smooth (Finite c) (Finite t) = Finite c' \<and> is_float32 c' \<and>
        min c t \<le> c' \<and> c' \<le> max c t \<and>
        \<bar>t - c'\<bar> \<le> \<bar>t - c\<bar> \<and> (c' = c \<or> \<bar>t - c'\<bar> < \<bar>t - c\<bar>) \<and>
        (\<bar>c\<bar> < 256 \<and> 1 / 2 ^ 15 \<le> \<bar>t - c\<bar> \<longrightarrow> \<bar>t - c'\<bar> < \<bar>t - c\<bar>)) \<and>
     (\<forall>n. \<exists>x y. ((\<lambda>f. smooth f (Finite t)) ^^ n) (Finite c) = Finite x \<and>
        ((\<lambda>f. smooth f (Finite t)) ^^ Suc n) (Finite c) = Finite y \<and>
        min c t \<le> x \<and> x \<le> max c t \<and>
        min x t \<le> y \<and> y \<le> max x t \<and> \<bar>t - y\<bar> \<le> \<bar>t - x\<bar> \<and>
        (\<bar>x\<bar> < 256 \<and> 1 / 2 ^ 15 \<le> \<bar>t - x\<bar> \<longrightarrow> \<bar>t - y\<bar> < \<bar>t - x\<bar>))"
    by blast
qed

text \<open>
  From 90 towards 80, ten degrees away, the step gives a value that is at least 80,
  strictly below 90 and strictly closer to 80; the second step is strictly closer again.
\<close>

theorem C5_witness:
  "is_float32 90 \<and> \<bar>90 :: rat\<bar> \<le> 2 ^ 126 \<and> is_float32 80 \<and> \<bar>80 :: rat\<bar> \<le> 2 ^ 126 \<and>
   \<bar>90 :: rat\<bar> < 256 \<and> (1 / 2 ^ 15 :: rat) \<le> \<bar>80 - 90\<bar> \<and>
   (\<exists>c'. smooth (Finite 90) (Finite 80) = Finite c' \<and> 80 \<le> c' \<and> c' < 90 \<and>
      \<bar>80 - c'\<bar> < \<bar>80 - 90\<bar>) \<and>
   (\<exists>x y. smooth (Finite 90) (Finite 80) = Finite x \<and>
      smooth (smooth (Finite 90) (Finite 80)) (Finite 80) = Finite y \<and> 80 \<le> y \<and> y \<le> x)"
proof -
  have f: "is_float32 90" "is_float32 80" using is_float32_int[of 90] is_float32_int[of 80] by simp_all
  have b: "\<bar>90 :: rat\<bar> \<le> 2 ^ 126" "\<bar>80 :: rat\<bar> \<le> 2 ^ 126" by simp_all
  have g: "\<bar>90 :: rat\<bar> < 256" "(1 / 2 ^ 15 :: rat) \<le> \<bar>80 - 90\<bar>" by simp_all
  note t = C5_smoothing_never_passes_target[of 90 80]
  from t f b g
  obtain c' where c': "smooth (Finite 90) (Finite 80) = Finite c'" "min 90 80 \<le> c'"
    "\<bar>80 - c'\<bar> < \<bar>80 - 90\<bar>" by blast
  then have 1: "\<exists>c'. smooth (Finite 90) (Finite 80) = Finite c' \<and> 80 \<le> c' \<and> c' < 90 \<and>
      \<bar>80 - c'\<bar> < \<bar>80 - 90\<bar>" by auto
  from t f b have "\<exists>x y. ((\<lambda>f. smooth f (Finite 80)) ^^ 1) (Finite 90) = Finite x \<and>
      ((\<lambda>f. smooth f (Finite 80)) ^^ Suc 1) (Finite 90) = Finite y \<and>
      min 90 80 \<le> x \<and> x \<le> max 90 80 \<and> min x 80 \<le> y \<and> y \<le> max x 80"
    by blast
  then obtain x y where xy: "smooth (Finite 90) (Finite 80) = Finite x"
    "smooth (smooth (Finite 90) (Finite 80)) (Finite 80) = Finite y"
    "min 90 80 \<le> x" "min x 80 \<le> y" "y \<le> max x 80" by auto
  then have "80 \<le> y" "y \<le> x" by (simp_all add: min_def max_def split: if_splits)
  with xy(1,2) have 2: "\<exists>x y. smooth (Finite 90) (Finite 80) = Finite x \<and>
      smooth (smooth (Finite 90) (Finite 80)) (Finite 80) = Finite y \<and> 80 \<le> y \<and> y \<le> x" by blast
  from f b g 1 2 show ?thesis by blast
qed

text \<open>
  Claim C5 as the specification states it, a distance that shrinks strictly whenever the
  current value is not the target, fails: with the current value 90 and the target
  \<open>90 + 2\<^sup>-\<^sup>1\<^sup>7\<close>, the next \<^verbatim>\<open>float\<close> above 90, the step is lost in the rounding
  and the current value stays 90. From the initial state the command
  \<^verbatim>\<open>-0.00001:0:0\<close> has this target and leaves the pan angle at 90.
\<close>

theorem C5_counterexample:
  "is_float32 90 \<and> is_float32 (11796481 / 131072) \<and>
   (0 :: rat) \<le> 11796481 / 131072 \<and> (11796481 / 131072 :: rat) \<le> 180 \<and>
   (90 :: rat) \<noteq> 11796481 / 131072 \<and>
   smooth (Finite 90) (Finite (11796481 / 131072)) = Finite 90 \<and>
   \<not> \<bar>11796481 / 131072 - 90 :: rat\<bar> < \<bar>11796481 / 131072 - 90\<bar> \<and>
   accepted ''-0.00001:0:0'' \<and>
   targetPan initial_state (panDelta ''-0.00001:0:0'' (firstColon ''-0.00001:0:0'')) =
     Finite (11796481 / 131072) \<and>
   currentPan (fst (parseCommand initial_state ''-0.00001:0:0'')) = Finite 90"
proof -
  have f: "is_float32 90" using is_float32_int[of 90] by simp
  have acc: "accepted ''-0.00001:0:0''" by (simp add: field_eval)
  have pd: "panDelta ''-0.00001:0:0'' (firstColon ''-0.00001:0:0'') =
      Finite (- (2748779 / 274877906944))"
    by (simp add: field_eval toFloat_small)
  have st: "currentPan (fst (parseCommand initial_state ''-0.00001:0:0'')) = Finite 90"
    by (simp add: parse_small apply_command_state target_small)
       (simp add: initial_state_value smooth_stalls)
  from f acc st show ?thesis
    by (simp add: is_float32_near_90 smooth_stalls pd target_small)
qed

section \<open>The limits\<close>

lemma parse_nan_0_0: "parseCommand st ''nan:0:0'' = apply_command st NaN (Finite 0) 0"
proof -
  have split: "''nan:0:0'' = ''nan'' @ CHR '':'' # ''0'' @ CHR '':'' # ''0''" by simp
  show ?thesis
    by (simp only: split, subst parseCommand_fields)
       (simp_all add: toFloat_nan toFloat_0 cstr_def toInt_vals)
qed

lemma NaN_right: "fadd x NaN = NaN" "flt x NaN = False"
  by (cases x; simp)+

lemma not_a_number_spreads:
  "targetPan st NaN = NaN" "smooth f NaN = NaN" "drive NaN lo hi = None"
  by (simp_all add: targetPan_def rawTargetPan_def fsub_def constrain_def fgt_def smooth_def
      drive_def NaN_right)

text \<open>
  Claim C1 is not met by the code. \<^verbatim>\<open>toFloat\<close> reads the field \<^verbatim>\<open>nan\<close> as a NaN, and
  both comparisons of \<^verbatim>\<open>constrain\<close> are false for a NaN, so the limits let it through:
  from the initial state, where the limits hold, the accepted command \<^verbatim>\<open>nan:0:0\<close>
  leaves \<^verbatim>\<open>currentPan\<close> a NaN, which is not within \<open>[PAN_MIN, PAN_MAX]\<close>, and the
  conversion that computes the pan pulse width is undefined.
\<close>

theorem C1_nan_delta_escapes_the_limits:
  "limits_hold initial_state \<and>
   accepted ''nan:0:0'' \<and>
   panDelta ''nan:0:0'' (firstColon ''nan:0:0'') = NaN \<and>
   currentPan (fst (parseCommand initial_state ''nan:0:0'')) = NaN \<and>
   \<not> in_limits (currentPan (fst (parseCommand initial_state ''nan:0:0''))) PAN_MIN PAN_MAX \<and>
   snd (parseCommand initial_state ''nan:0:0'') ! 0 = WriteMicroseconds panServo None"
proof -
  have acc: "accepted ''nan:0:0''" "panDelta ''nan:0:0'' (firstColon ''nan:0:0'') = NaN"
    by (simp_all add: field_eval toFloat_nan)
  have st: "currentPan (fst (parseCommand initial_state ''nan:0:0'')) = NaN"
    by (simp add: parse_nan_0_0 apply_command_state not_a_number_spreads)
  have w: "snd (parseCommand initial_state ''nan:0:0'') ! 0 = WriteMicroseconds panServo None"
    by (simp add: parse_nan_0_0 apply_command_writes not_a_number_spreads)
  from acc w limits_hold_initial show ?thesis by (simp add: st)
qed

text \<open>Once an angle is a NaN it stays one, whatever commands follow.\<close>

lemma nan_angle_stays: "currentPan st = NaN \<Longrightarrow> currentPan (run st commands) = NaN"
proof (induction commands arbitrary: st)
  case Nil
  then show ?case by simp
next
  case (Cons command commands)
  have "smooth NaN f = NaN" for f by (simp add: smooth_def)
  then have "currentPan (fst (parseCommand st command)) = NaN"
    using Cons.prems by (simp add: parseCommand_def apply_command_state)
  then show ?case using Cons.IH by simp
qed

text \<open>
  What the code does keep: starting from the initial state, the limits hold after every
  command of a sequence in which no accepted command has a delta field that converts to
  a NaN. Infinite deltas are clamped like any other.
\<close>

lemma limits_kept_while_deltas_are_numbers:
  "\<forall>command \<in> set commands. deltas_are_numbers command \<Longrightarrow>
     limits_hold (run initial_state commands) \<and>
     in_limits (currentPan (run initial_state commands)) PAN_MIN PAN_MAX \<and>
     in_limits (currentTilt (run initial_state commands)) TILT_MIN TILT_MAX"
proof -
  assume "\<forall>command \<in> set commands. deltas_are_numbers command"
  with limits_hold_initial have "limits_hold (run initial_state commands)" by (rule run_limits)
  then show ?thesis by (simp add: limits_hold_def angle_ok_in_limits)
qed

section \<open>What an accepted command writes\<close>

lemma ucast_down_of_int: "(ucast (word_of_int k :: 32 word) :: 16 word) = word_of_int k"
proof -
  have "(ucast (word_of_int k :: 32 word) :: 16 word) = word_of_int (uint (word_of_int k :: 32 word))"
    by (rule ucast_eq)
  also have "\<dots> = word_of_int (k mod 2 ^ 32)" by (simp add: uint_word_of_int)
  also have "\<dots> = (word_of_int k :: 16 word)"
    by (simp add: word_of_int_eq_iff take_bit_eq_mod mod_mod_cancel)
  finally show ?thesis .
qed

lemma toInt_flag_value: "toInt s = word_of_int (flag_value s)"
proof -
  obtain neg s2 where ts: "take_sign (dropWhile isspace s) = (neg, s2)"
    by (cases "take_sign (dropWhile isspace s)")
  have "foldl (\<lambda>a c. 10 * a + of_nat (digit_val c)) (of_nat 0 :: 32 word) (takeWhile isdigit s2) =
      of_nat (digits_val (takeWhile isdigit s2))"
    unfolding digits_val_def by (rule foldl_of_nat)
  then show ?thesis by (simp add: toInt_def atol_def flag_value_def ts Let_def)
qed

lemma laser_flag_value:
  "(ucast (toInt s) :: 16 word) \<noteq> 0 \<longleftrightarrow> \<not> 65536 dvd flag_value s"
  by (simp add: toInt_flag_value ucast_down_of_int word_of_int_eq_0_iff)

lemma small_flag: "\<bar>k\<bar> < 65536 \<Longrightarrow> (\<not> 65536 dvd k) = (k \<noteq> 0)" for k :: int
proof (cases "k = 0")
  case True
  then show ?thesis by simp
next
  case False
  assume "\<bar>k\<bar> < 65536"
  with False have "\<not> 65536 dvd k" using zdvd_imp_le[of 65536 "\<bar>k\<bar>"] by auto
  with False show ?thesis by simp
qed

lemma drive_within:
  assumes "angle_ok f 0 180"
  shows "\<exists>v. drive f 0 180 = Some v \<and> 700 \<le> v \<and> v \<le> 2500"
proof -
  from assms obtain a where a: "f = Finite a" "0 \<le> a" "a \<le> 180" by (elim angle_okD) simp
  have "0 \<le> \<lfloor>a\<rfloor>" "\<lfloor>a\<rfloor> \<le> 180" using a(2,3) by (simp_all add: floor_le_iff)
  then show ?thesis using drive_in_limits[OF a(2,3)] by (simp add: a(1))
qed


lemmas flag_eval = flag_value_def isspace_def isdigit_def digits_val_def digit_val_def Let_def

text \<open>
  Claim C8, as the code has it. An accepted command writes exactly three values, once
  each and in this order: a pulse width to the pan servo, a pulse width to the tilt
  servo (each computed from the new angle), and a level to the laser pin. The flag is
  narrowed to the 16-bit \<^verbatim>\<open>int laser\<close> before it is tested, so the level is high
  exactly when the integer written at the start of the third field is not a multiple
  of 65536: for a flag below 65536 in magnitude, high when it is not zero and low when it
  is zero. While the limits hold and no delta is a NaN, both pulse widths are integers
  from 700 to 2500. Of what the program keeps between two lines, only \<^verbatim>\<open>currentPan\<close>
  and \<^verbatim>\<open>currentTilt\<close> change.
\<close>

theorem C8_three_writes_gate_from_flag:
  "(accepted command \<longrightarrow>
      snd (parseCommand st command) =
        [WriteMicroseconds panServo
           (drive (currentPan (fst (parseCommand st command))) PAN_MIN PAN_MAX),
         WriteMicroseconds tiltServo
           (drive (currentTilt (fst (parseCommand st command))) TILT_MIN TILT_MAX),
         DigitalWrite LASER_PIN
           (\<not> 65536 dvd flag_value (substring_from command (nat (secondColon command + 1))))] \<and>
      axis_state.more (fst (parseCommand st command)) = axis_state.more st) \<and>
   (CHR '':'' \<notin> set a \<and> a \<noteq> [] \<and> CHR 0x00 \<notin> set a \<and> CHR '':'' \<notin> set b \<and> CHR 0x00 \<notin> set b \<longrightarrow>
      length (snd (parseCommand st (a @ CHR '':'' # b @ CHR '':'' # r))) = 3 \<and>
      snd (parseCommand st (a @ CHR '':'' # b @ CHR '':'' # r)) ! 2 =
        DigitalWrite LASER_PIN (\<not> 65536 dvd flag_value (cstr r))) \<and>
   (\<bar>flag_value s\<bar> < 65536 \<longrightarrow> (\<not> 65536 dvd flag_value s) = (flag_value s \<noteq> 0)) \<and>
   (accepted command \<and> limits_hold st \<and> deltas_are_numbers command \<longrightarrow>
      (\<exists>p t. snd (parseCommand st command) ! 0 = WriteMicroseconds panServo (Some p) \<and>
             700 \<le> p \<and> p \<le> 2500 \<and>
             snd (parseCommand st command) ! 1 = WriteMicroseconds tiltServo (Some t) \<and>
             700 \<le> t \<and> t \<le> 2500))"
proof -
  have 1: "accepted command \<longrightarrow>
      snd (parseCommand st command) =
        [WriteMicroseconds panServo
           (drive (currentPan (fst (parseCommand st command))) PAN_MIN PAN_MAX),
         WriteMicroseconds tiltServo
           (drive (currentTilt (fst (parseCommand st command))) TILT_MIN TILT_MAX),
         DigitalWrite LASER_PIN
           (\<not> 65536 dvd flag_value (substring_from command (nat (secondColon command + 1))))] \<and>
      axis_state.more (fst (parseCommand st command)) = axis_state.more st"
    by (simp add: parseCommand_def apply_command_def Let_def laser_def laser_flag_value)
  have 2: "CHR '':'' \<notin> set a \<and> a \<noteq> [] \<and> CHR 0x00 \<notin> set a \<and> CHR '':'' \<notin> set b \<and> CHR 0x00 \<notin> set b \<longrightarrow>
      length (snd (parseCommand st (a @ CHR '':'' # b @ CHR '':'' # r))) = 3 \<and>
      snd (parseCommand st (a @ CHR '':'' # b @ CHR '':'' # r)) ! 2 =
        DigitalWrite LASER_PIN (\<not> 65536 dvd flag_value (cstr r))"
    by (simp add: parseCommand_fields apply_command_writes laser_flag_value)
  have 3: "\<bar>flag_value s\<bar> < 65536 \<longrightarrow> (\<not> 65536 dvd flag_value s) = (flag_value s \<noteq> 0)"
    using small_flag[of "flag_value s"] by blast
  have 4: "accepted command \<and> limits_hold st \<and> deltas_are_numbers command \<longrightarrow>
      (\<exists>p t. snd (parseCommand st command) ! 0 = WriteMicroseconds panServo (Some p) \<and>
             700 \<le> p \<and> p \<le> 2500 \<and>
             snd (parseCommand st command) ! 1 = WriteMicroseconds tiltServo (Some t) \<and>
             700 \<le> t \<and> t \<le> 2500)"
  proof
    assume h: "accepted command \<and> limits_hold st \<and> deltas_are_numbers command"
    then have "limits_hold (fst (parseCommand st command))" by (simp add: parseCommand_limits)
    then have ok: "angle_ok (currentPan (fst (parseCommand st command))) 0 180"
      "angle_ok (currentTilt (fst (parseCommand st command))) 0 180"
      by (simp_all add: limits_hold_def PAN_MIN_def PAN_MAX_def TILT_MIN_def TILT_MAX_def)
    from drive_within[OF ok(1)] obtain p where
      p: "drive (currentPan (fst (parseCommand st command))) 0 180 = Some p" "700 \<le> p" "p \<le> 2500"
      by blast
    from drive_within[OF ok(2)] obtain t where
      t: "drive (currentTilt (fst (parseCommand st command))) 0 180 = Some t" "700 \<le> t" "t \<le> 2500"
      by blast
    from 1 h have w: "snd (parseCommand st command) ! 0 =
        WriteMicroseconds panServo (drive (currentPan (fst (parseCommand st command))) 0 180)"
      "snd (parseCommand st command) ! 1 =
        WriteMicroseconds tiltServo (drive (currentTilt (fst (parseCommand st command))) 0 180)"
      by (simp_all add: PAN_MIN_def PAN_MAX_def TILT_MIN_def TILT_MAX_def)
    from w p t show "\<exists>p t. snd (parseCommand st command) ! 0 = WriteMicroseconds panServo (Some p) \<and>
             700 \<le> p \<and> p \<le> 2500 \<and>
             snd (parseCommand st command) ! 1 = WriteMicroseconds tiltServo (Some t) \<and>
             700 \<le> t \<and> t \<le> 2500"
      by (simp only:) blast
  qed
  from 1 2 3 4 show ?thesis by blast
qed

text \<open>
  From the initial state the command \<^verbatim>\<open>10:10:1\<close>, whose flag is 1, writes three values,
  two pulse widths from 700 to 2500 and a high level.
\<close>

theorem C8_witness:
  "accepted ''10:10:1'' \<and> limits_hold initial_state \<and> deltas_are_numbers ''10:10:1'' \<and>
   flag_value ''1'' = 1 \<and>
   length (snd (parseCommand initial_state ''10:10:1'')) = 3 \<and>
   snd (parseCommand initial_state ''10:10:1'') ! 2 = DigitalWrite LASER_PIN True \<and>
   (\<exists>p t. snd (parseCommand initial_state ''10:10:1'') ! 0 = WriteMicroseconds panServo (Some p) \<and>
          700 \<le> p \<and> p \<le> 2500 \<and>
          snd (parseCommand initial_state ''10:10:1'') ! 1 = WriteMicroseconds tiltServo (Some t) \<and>
          700 \<le> t \<and> t \<le> 2500)"
proof -
  have s: "''10'' @ CHR '':'' # ''10'' @ CHR '':'' # ''1'' = ''10:10:1''" by simp
  note t = C8_three_writes_gate_from_flag
    [where command = "''10:10:1''" and st = initial_state and a = "''10''" and b = "''10''"
       and r = "''1''" and s = "''1''", unfolded s]
  have acc: "accepted ''10:10:1''" by (simp add: field_eval)
  have d: "deltas_are_numbers ''10:10:1''"
    by (simp add: deltas_are_numbers_def field_eval toFloat_10)
  have f: "flag_value ''1'' = 1" "cstr ''1'' = ''1''" by (simp_all add: flag_eval cstr_def)
  have c: "CHR '':'' \<notin> set ''10'' \<and> ''10'' \<noteq> [] \<and> CHR 0x00 \<notin> set ''10'' \<and>
      CHR '':'' \<notin> set ''10'' \<and> CHR 0x00 \<notin> set ''10''" by simp
  have g: "\<bar>flag_value ''1''\<bar> < 65536" "flag_value ''1'' \<noteq> 0" by (simp_all add: f)
  note t2 = t[THEN conjunct2, THEN conjunct1, unfolded f(2)]
  note t3 = t[THEN conjunct2, THEN conjunct2, THEN conjunct1]
  from t2 c have "snd (parseCommand initial_state ''10:10:1'') ! 2 =
      DigitalWrite LASER_PIN (\<not> 65536 dvd flag_value ''1'')"
    "length (snd (parseCommand initial_state ''10:10:1'')) = 3" by blast+
  moreover from t3 g have "\<not> 65536 dvd flag_value ''1''" by blast
  ultimately have w: "snd (parseCommand initial_state ''10:10:1'') ! 2 = DigitalWrite LASER_PIN True"
    "length (snd (parseCommand initial_state ''10:10:1'')) = 3" by simp_all
  from t acc d limits_hold_initial
  have "\<exists>p t. snd (parseCommand initial_state ''10:10:1'') ! 0 = WriteMicroseconds panServo (Some p) \<and>
          700 \<le> p \<and> p \<le> 2500 \<and>
          snd (parseCommand initial_state ''10:10:1'') ! 1 = WriteMicroseconds tiltServo (Some t) \<and>
          700 \<le> t \<and> t \<le> 2500" by blast
  with acc d f(1) w limits_hold_initial show ?thesis by blast
qed

text \<open>
  Claim C8 as the specification states it, a gate that is active for every nonzero
  flag, fails: the line \<^verbatim>\<open>0:0:65536\<close> is accepted, its flag 65536 is not zero and
  \<^verbatim>\<open>toInt\<close> returns it unchanged, but the 16-bit \<^verbatim>\<open>laser\<close> is 0 and the level written
  is low.
\<close>

theorem C8_counterexample:
  "accepted ''0:0:65536'' \<and>
   flag_value ''65536'' = 65536 \<and> flag_value ''65536'' \<noteq> 0 \<and>
   toInt ''65536'' = 65536 \<and> toInt ''65536'' \<noteq> 0 \<and>
   laser ''0:0:65536'' (secondColon ''0:0:65536'') = 0 \<and>
   snd (parseCommand initial_state ''0:0:65536'') ! 2 = DigitalWrite LASER_PIN False"
proof -
  have acc: "accepted ''0:0:65536''" by (simp add: field_eval)
  have f: "flag_value ''65536'' = 65536" by (simp add: flag_eval)
  have t: "toInt ''65536'' = 65536" by (simp add: atol_eval)
  have l: "laser ''0:0:65536'' (secondColon ''0:0:65536'') = 0"
    by (simp add: field_eval atol_eval)
  have w: "snd (parseCommand initial_state ''0:0:65536'') ! 2 = DigitalWrite LASER_PIN False"
    using acc by (simp add: parseCommand_def apply_command_writes l)
  from acc f t l w show ?thesis by simp
qed

end
